theory Spec2Isabelle
  imports Complex_Main
begin

section \<open>Feature extraction for table fragments (extract\_features.py)\<close>

text \<open>
  A shallow embedding of \<^verbatim>\<open>extract_features.py\<close>. Conventions:
  \<^item> a Python \<^verbatim>\<open>str\<close> is a \<^typ>\<open>string\<close>; one \<^typ>\<open>char\<close> stands for one code point
    below 256, and the character classes below are those of CPython on that range;
  \<^item> a Python \<^verbatim>\<open>int\<close> is an \<^typ>\<open>int\<close>;
  \<^item> a Python or numpy \<^verbatim>\<open>float\<close> is the exact rational it approximates, or NaN:
    rounding to binary64 is not modelled, and the literal \<^verbatim>\<open>0.1\<close> is \<open>1/10\<close>;
  \<^item> an exception is a value \<open>Inl e\<close> of a sum type;
  \<^item> an \<^verbatim>\<open>OrderedDict\<close> is an association list in insertion order (keyword
    arguments keep their order, as in Python 3.6 and later).
\<close>

subsection \<open>Characters and strings\<close>

abbreviation backslash :: char where
  "backslash \<equiv> CHR 0x5C"

definition code_point :: "char \<Rightarrow> nat" where
  "code_point c = of_char c"

text \<open>\<^verbatim>\<open>char in '0123456789'\<close>\<close>

definition is_ascii_digit :: "char \<Rightarrow> bool" where
  "is_ascii_digit c = (c \<in> set ''0123456789'')"

text \<open>\<^verbatim>\<open>str.isspace\<close> for one character, which is also the class \<^verbatim>\<open>\s\<close>:
  TAB to CR, FS to US, space, NEL and NBSP.\<close>

definition isspace :: "char \<Rightarrow> bool" where
  "isspace c =
     (let n = code_point c
      in (9 \<le> n \<and> n \<le> 13) \<or> (28 \<le> n \<and> n \<le> 32) \<or> n = 133 \<or> n = 160)"

text \<open>The class \<^verbatim>\<open>\w\<close> of a \<^verbatim>\<open>str\<close> pattern: alphanumeric or underscore.\<close>

definition isalnum :: "char \<Rightarrow> bool" where
  "isalnum c =
     (let n = code_point c
      in (48 \<le> n \<and> n \<le> 57) \<or> (65 \<le> n \<and> n \<le> 90) \<or> (97 \<le> n \<and> n \<le> 122)
         \<or> n = 170 \<or> n = 178 \<or> n = 179 \<or> n = 181 \<or> n = 185 \<or> n = 186
         \<or> (188 \<le> n \<and> n \<le> 190) \<or> (192 \<le> n \<and> n \<le> 214)
         \<or> (216 \<le> n \<and> n \<le> 246) \<or> (248 \<le> n \<and> n \<le> 255))"

definition is_word_char :: "char \<Rightarrow> bool" where
  "is_word_char c = (isalnum c \<or> c = CHR ''_'')"

text \<open>\<^verbatim>\<open>str.lower\<close> for one character: A to Z and the capital letters of Latin-1.\<close>

definition lower_char :: "char \<Rightarrow> char" where
  "lower_char c =
     (let n = code_point c
      in if (65 \<le> n \<and> n \<le> 90) \<or> (192 \<le> n \<and> n \<le> 222 \<and> n \<noteq> 215)
         then char_of (n + 32) else c)"

definition lower :: "string \<Rightarrow> string" where
  "lower s = map lower_char s"

text \<open>\<^verbatim>\<open>str.split()\<close> without arguments: the maximal runs of non-whitespace.
  \<open>cur\<close> holds the token being read, reversed.\<close>

fun split_from :: "string \<Rightarrow> string \<Rightarrow> string list" where
  "split_from cur [] = (if cur = [] then [] else [rev cur])"
| "split_from cur (c # cs) =
     (if isspace c
      then (if cur = [] then split_from [] cs else rev cur # split_from [] cs)
      else split_from (c # cur) cs)"

definition split :: "string \<Rightarrow> string list" where
  "split s = split_from [] s"

text \<open>\<^verbatim>\<open>str.strip()\<close> without arguments.\<close>

definition strip :: "string \<Rightarrow> string" where
  "strip s = rev (dropWhile isspace (rev (dropWhile isspace s)))"

text \<open>\<^verbatim>\<open>str(n)\<close> and \<^verbatim>\<open>'{}'.format(n)\<close> for a natural number.\<close>

fun str_nat :: "nat \<Rightarrow> string" where
  "str_nat n =
     (if n < 10 then [''0123456789'' ! n]
      else str_nat (n div 10) @ [''0123456789'' ! (n mod 10)])"

declare str_nat.simps [simp del]

subsection \<open>Values, exceptions and ordered dictionaries\<close>

datatype py_error =
    ZeroDivisionError
  | KeyError
  | ReError
  | LoadError
  | PatternNotModelled

text \<open>\<open>PatternNotModelled\<close> is not an exception of the program: it marks a pattern
  whose syntax lies outside the part of the \<^verbatim>\<open>re\<close> module modelled below. Nothing is
  stated about the program on such a pattern.\<close>

datatype pyfloat = Fin rat | NaN

datatype pyvalue = VInt int | VFloat pyfloat | VBool bool

type_synonym features = "(string \<times> pyvalue) list"

text \<open>\<^verbatim>\<open>d[k] = v\<close>: an existing key keeps its place, a new key goes to the end.\<close>

fun od_set :: "features \<Rightarrow> string \<Rightarrow> pyvalue \<Rightarrow> features" where
  "od_set [] k v = [(k, v)]"
| "od_set ((k', v') # d) k v = (if k' = k then (k, v) # d else (k', v') # od_set d k v)"

text \<open>\<^verbatim>\<open>d[k]\<close>, where \<open>None\<close> is \<^verbatim>\<open>KeyError\<close>.\<close>

definition od_get :: "features \<Rightarrow> string \<Rightarrow> pyvalue option" where
  "od_get d k = map_of d k"

text \<open>\<^verbatim>\<open>d.move_to_end(k, last=False)\<close>\<close>

definition move_to_front :: "features \<Rightarrow> string \<Rightarrow> py_error + features" where
  "move_to_front d k =
     (case od_get d k of
        None \<Rightarrow> Inl KeyError
      | Some v \<Rightarrow> Inr ((k, v) # filter (\<lambda>kv. fst kv \<noteq> k) d))"

text \<open>Numeric comparison of a value with a float: a \<^verbatim>\<open>bool\<close> counts as 0 or 1, and
  every comparison with NaN is false.\<close>

fun as_float :: "pyvalue \<Rightarrow> pyfloat" where
  "as_float (VInt i) = Fin (of_int i)"
| "as_float (VBool b) = Fin (if b then 1 else 0)"
| "as_float (VFloat f) = f"

fun float_less :: "pyfloat \<Rightarrow> pyfloat \<Rightarrow> bool" where
  "float_less (Fin x) (Fin y) = (x < y)"
| "float_less _ _ = False"

definition value_gt :: "pyvalue \<Rightarrow> rat \<Rightarrow> bool" where
  "value_gt v q = float_less (Fin q) (as_float v)"

definition value_lt :: "pyvalue \<Rightarrow> rat \<Rightarrow> bool" where
  "value_lt v q = float_less (as_float v) (Fin q)"

text \<open>Python's \<^verbatim>\<open>a / b\<close> on two ints.\<close>

definition truediv :: "int \<Rightarrow> int \<Rightarrow> py_error + pyfloat" where
  "truediv a b = (if b = 0 then Inl ZeroDivisionError else Inr (Fin (of_int a / of_int b)))"

subsection \<open>The classifier\<close>

text \<open>\<^verbatim>\<open>return s['digits_perc'] > 0.1 and s['cell_words_mean'] < 5\<close>: the second key is
  read only when the first comparison is true.\<close>

definition predict_is_table :: "features \<Rightarrow> py_error + bool" where
  "predict_is_table s =
     (case od_get s ''digits_perc'' of
        None \<Rightarrow> Inl KeyError
      | Some d \<Rightarrow>
          if value_gt d (1 / 10)
          then (case od_get s ''cell_words_mean'' of
                  None \<Rightarrow> Inl KeyError
                | Some m \<Rightarrow> Inr (value_lt m 5))
          else Inr False)"

subsection \<open>Regular expressions\<close>

text \<open>
  The part of the \<^verbatim>\<open>re\<close> module that the program uses: patterns made of ordinary
  characters, the dot, the escapes \<^verbatim>\<open>\s\<close>, \<^verbatim>\<open>\d\<close>, \<^verbatim>\<open>\w\<close>, \<^verbatim>\<open>\b\<close> and an escaped
  character that is no ASCII letter or digit. A backslash that ends the pattern is
  \<^verbatim>\<open>re.error\<close>. Repetition, groups, sets, anchors, alternation and the other
  escapes are not modelled.
\<close>

datatype category = Space | Digit | Word

datatype re_item = Literal char | AnyChar | In category | AtBoundary

datatype pattern = Pattern (items: "re_item list") (ignorecase: bool)

definition is_ascii_alnum :: "char \<Rightarrow> bool" where
  "is_ascii_alnum c =
     (let n = code_point c
      in (48 \<le> n \<and> n \<le> 57) \<or> (65 \<le> n \<and> n \<le> 90) \<or> (97 \<le> n \<and> n \<le> 122))"

definition parse_escape :: "char \<Rightarrow> py_error + re_item" where
  "parse_escape e =
     (if e = CHR ''s'' then Inr (In Space)
      else if e = CHR ''d'' then Inr (In Digit)
      else if e = CHR ''w'' then Inr (In Word)
      else if e = CHR ''b'' then Inr AtBoundary
      else if is_ascii_alnum e then Inl PatternNotModelled
      else Inr (Literal e))"

definition parse_plain :: "char \<Rightarrow> py_error + re_item" where
  "parse_plain c =
     (if c = CHR ''.'' then Inr AnyChar
      else if c \<in> set ''^$*+?{}[]|()'' then Inl PatternNotModelled
      else Inr (Literal c))"

definition then_items ::
  "py_error + re_item \<Rightarrow> py_error + re_item list \<Rightarrow> py_error + re_item list" where
  "then_items r rs =
     (case r of
        Inl e \<Rightarrow> Inl e
      | Inr i \<Rightarrow> (case rs of Inl e \<Rightarrow> Inl e | Inr is \<Rightarrow> Inr (i # is)))"

fun re_parse :: "string \<Rightarrow> py_error + re_item list" where
  "re_parse [] = Inr []"
| "re_parse [c] = (if c = backslash then Inl ReError else then_items (parse_plain c) (Inr []))"
| "re_parse (c # e # rest) =
     (if c = backslash then then_items (parse_escape e) (re_parse rest)
      else then_items (parse_plain c) (re_parse (e # rest)))"

text \<open>\<^verbatim>\<open>re.compile(pattern, flags)\<close>, where the only flag is \<^verbatim>\<open>re.IGNORECASE\<close>.\<close>

definition re_compile :: "string \<Rightarrow> bool \<Rightarrow> py_error + pattern" where
  "re_compile s ic = (case re_parse s of Inl e \<Rightarrow> Inl e | Inr is \<Rightarrow> Inr (Pattern is ic))"

fun in_category :: "category \<Rightarrow> char \<Rightarrow> bool" where
  "in_category Space c = isspace c"
| "in_category Digit c = is_ascii_digit c"
| "in_category Word c = is_word_char c"

text \<open>Whether an item that reads one character accepts \<open>c\<close>.\<close>

fun accepts :: "bool \<Rightarrow> re_item \<Rightarrow> char \<Rightarrow> bool" where
  "accepts ic (Literal a) c = (if ic then lower_char c = lower_char a else c = a)"
| "accepts ic AnyChar c = (c \<noteq> CHR 0x0A)"
| "accepts ic (In k) c = in_category k c"
| "accepts ic AtBoundary c = False"

text \<open>\<^verbatim>\<open>\b\<close> between the character before the position (if any) and the rest of the
  string: exactly one side is a word character.\<close>

definition at_boundary :: "char option \<Rightarrow> string \<Rightarrow> bool" where
  "at_boundary prev s =
     ((case prev of None \<Rightarrow> False | Some c \<Rightarrow> is_word_char c)
        \<noteq> (case s of [] \<Rightarrow> False | c # _ \<Rightarrow> is_word_char c))"

text \<open>A match of the items that starts at the current position.\<close>

fun match_here :: "bool \<Rightarrow> re_item list \<Rightarrow> char option \<Rightarrow> string \<Rightarrow> bool" where
  "match_here ic [] prev s = True"
| "match_here ic (AtBoundary # r) prev s = (at_boundary prev s \<and> match_here ic r prev s)"
| "match_here ic (i # r) prev [] = False"
| "match_here ic (i # r) prev (c # cs) = (accepts ic i c \<and> match_here ic r (Some c) cs)"

text \<open>A match that starts at the current position or at a later one.\<close>

fun search_from :: "bool \<Rightarrow> re_item list \<Rightarrow> char option \<Rightarrow> string \<Rightarrow> bool" where
  "search_from ic p prev [] = match_here ic p prev []"
| "search_from ic p prev (c # cs) =
     (match_here ic p prev (c # cs) \<or> search_from ic p (Some c) cs)"

text \<open>Whether \<^verbatim>\<open>pattern.finditer(c)\<close> yields anything.\<close>

definition finditer_yields :: "pattern \<Rightarrow> string \<Rightarrow> bool" where
  "finditer_yields p c = search_from (ignorecase p) (items p) None c"

text \<open>\<^verbatim>\<open>re.findall(r'\d+', c)\<close>: the maximal runs of digits, from left to right.
  \<open>cur\<close> holds the run being read, reversed.\<close>

fun digit_runs_from :: "string \<Rightarrow> string \<Rightarrow> string list" where
  "digit_runs_from cur [] = (if cur = [] then [] else [rev cur])"
| "digit_runs_from cur (c # cs) =
     (if is_ascii_digit c then digit_runs_from (c # cur) cs
      else (if cur = [] then digit_runs_from [] cs else rev cur # digit_runs_from [] cs))"

definition findall_digits :: "string \<Rightarrow> string list" where
  "findall_digits c = digit_runs_from [] c"

text \<open>\<^verbatim>\<open>re.sub(r'\\.', '_', s)\<close>: a backslash and the character after it (any but a
  newline) become one underscore.\<close>

fun sub_escapes :: "string \<Rightarrow> string" where
  "sub_escapes (c # d # s) =
     (if c = backslash \<and> d \<noteq> CHR 0x0A then CHR ''_'' # sub_escapes s
      else c # sub_escapes (d # s))"
| "sub_escapes s = s"

subsection \<open>is\_word\_in\<close>

text \<open>The two functions of the \<^verbatim>\<open>re\<close> module that \<^verbatim>\<open>is_word_in\<close> calls are parameters
  of \<open>is_word_in_with\<close>: \<open>compile s ic\<close> stands for \<^verbatim>\<open>re.compile(s, flags)\<close>, where \<open>ic\<close>
  tells whether the flag is \<^verbatim>\<open>re.IGNORECASE\<close>, and \<open>yields p c\<close> tells whether
  \<^verbatim>\<open>p.finditer(c)\<close> yields a match. \<open>is_word_in\<close> is the instance with the part of
  \<^verbatim>\<open>re\<close> modelled above.\<close>

text \<open>The loop over the cells: it returns at the first cell with a match.\<close>

fun any_cell_matches :: "('p \<Rightarrow> string \<Rightarrow> bool) \<Rightarrow> 'p \<Rightarrow> string list \<Rightarrow> bool" where
  "any_cell_matches yields p [] = False"
| "any_cell_matches yields p (c # cells) =
     (if yields p c then True else any_cell_matches yields p cells)"

definition word_pattern :: "string \<Rightarrow> bool \<Rightarrow> string" where
  "word_pattern word match_end =
     [backslash, CHR ''b''] @ word @ (if match_end then [backslash, CHR ''b''] else [])"

definition is_word_in_with ::
  "(string \<Rightarrow> bool \<Rightarrow> py_error + 'p) \<Rightarrow> ('p \<Rightarrow> string \<Rightarrow> bool)
     \<Rightarrow> string \<Rightarrow> string list \<Rightarrow> bool \<Rightarrow> bool \<Rightarrow> py_error + bool" where
  "is_word_in_with compile yields word cells case_sensitive match_end =
     (case compile (word_pattern word match_end) (\<not> case_sensitive) of
        Inl e \<Rightarrow> Inl e
      | Inr p \<Rightarrow> Inr (any_cell_matches yields p cells))"

definition is_word_in :: "string \<Rightarrow> string list \<Rightarrow> bool \<Rightarrow> bool \<Rightarrow> py_error + bool" where
  "is_word_in word cells case_sensitive match_end =
     is_word_in_with re_compile finditer_yields word cells case_sensitive match_end"

subsection \<open>Data frames and series\<close>

text \<open>A data frame of strings: \<open>df_len\<close> is \<^verbatim>\<open>len(df)\<close>, the number of rows, and
  \<open>df_columns\<close> holds the columns from left to right, each from top to bottom.\<close>

record dataframe =
  df_len :: nat
  df_columns :: "string list list"

text \<open>\<^verbatim>\<open>pandas.DataFrame(rows).fillna('')\<close>: the frame of a grid given by its rows,
  where a short row is filled up with empty strings.\<close>

definition from_rows :: "string list list \<Rightarrow> dataframe" where
  "from_rows rows =
     \<lparr>df_len = length rows,
      df_columns =
        map (\<lambda>j. map (\<lambda>r. if j < length r then r ! j else []) rows)
          [0..<fold max (map length rows) 0]\<rparr>"

text \<open>\<^verbatim>\<open>Series.min\<close>, \<^verbatim>\<open>Series.mean\<close> and \<^verbatim>\<open>Series.max\<close> of a series of ints; on the
  empty series each is NaN.\<close>

definition series_min :: "int list \<Rightarrow> pyvalue" where
  "series_min xs = (if xs = [] then VFloat NaN else VInt (Min (set xs)))"

definition series_max :: "int list \<Rightarrow> pyvalue" where
  "series_max xs = (if xs = [] then VFloat NaN else VInt (Max (set xs)))"

definition series_mean :: "int list \<Rightarrow> pyvalue" where
  "series_mean xs =
     (if xs = [] then VFloat NaN
      else VFloat (Fin (of_int (sum_list xs) / of_int (int (length xs)))))"

text \<open>\<^verbatim>\<open>collections.Counter(xs)\<close> and \<^verbatim>\<open>counter.get(k, d)\<close>\<close>

definition counter_add :: "(nat \<rightharpoonup> nat) \<Rightarrow> nat \<Rightarrow> (nat \<rightharpoonup> nat)" where
  "counter_add m k = m(k \<mapsto> (case m k of None \<Rightarrow> 1 | Some n \<Rightarrow> Suc n))"

definition Counter :: "nat list \<Rightarrow> (nat \<rightharpoonup> nat)" where
  "Counter xs = fold (\<lambda>x m. counter_add m x) xs Map.empty"

definition counter_get :: "(nat \<rightharpoonup> nat) \<Rightarrow> nat \<Rightarrow> nat \<Rightarrow> nat" where
  "counter_get m k d = (case m k of None \<Rightarrow> d | Some n \<Rightarrow> n)"

subsection \<open>get\_table\_features\<close>

text \<open>\<^verbatim>\<open>[c for _, col in df.items() for c in col]\<close>: the cells, column by column.\<close>

definition cells_of :: "dataframe \<Rightarrow> string list" where
  "cells_of df = concat (df_columns df)"

definition words_count_by_cell :: "string list \<Rightarrow> int list" where
  "words_count_by_cell cells = map (\<lambda>c. int (length (split c))) cells"

definition empty_cells :: "string list \<Rightarrow> nat" where
  "empty_cells cells = length (filter (\<lambda>c. strip c = []) cells)"

definition total_words :: "string list \<Rightarrow> nat" where
  "total_words cells = length (concat (map split cells))"

definition total_chars :: "string list \<Rightarrow> nat" where
  "total_chars cells = length (concat cells)"

definition total_digits :: "string list \<Rightarrow> nat" where
  "total_digits cells = length (filter is_ascii_digit (concat cells))"

definition words :: "(string \<times> bool \<times> bool) list" where
  "words =
     [(''age'', False, True),
      (''date'', False, True),
      (''year'', False, False),
      (''BP'', True, True),
      (''BC'', True, True),
      (''AD'', False, True),
      (''Ka'', True, True),
      (''CAL'', False, True),
      (''painting'', False, False),
      (''drawing'', False, False),
      (''engraving'', False, False),
      (''pictograph'', False, False),
      (''petroglyph'', False, False),
      (''AMS'', True, True),
      (''Uranium'' @ [backslash] @ ''sserie'', False, False),
      (''Radiocarbon'', False, True),
      (''RC14'', False, True),
      (''charcoal'', False, True),
      (''pigment'', False, False),
      (''calcite'', False, False),
      (''beeswax'', False, True),
      (''varnish'', False, True),
      (''bone'', False, False),
      (''cave'', False, False),
      (''site'', False, False)]"

definition feature_name :: "string \<Rightarrow> bool \<Rightarrow> bool \<Rightarrow> string" where
  "feature_name word case_sensitive match_end =
     (let word_name = (if case_sensitive then word else lower word);
          word_name = sub_escapes word_name
      in ''w_'' @ (if case_sensitive then ''cs'' else ''ci'') @ ''_''
           @ (if match_end then ''e'' else ''ne'') @ ''_'' @ word_name)"

text \<open>The loop over the word catalog.\<close>

fun word_features ::
  "(string \<times> bool \<times> bool) list \<Rightarrow> string list \<Rightarrow> features \<Rightarrow> py_error + features" where
  "word_features [] cells features = Inr features"
| "word_features ((word, case_sensitive, match_end) # ws) cells features =
     (case is_word_in word cells case_sensitive match_end of
        Inl e \<Rightarrow> Inl e
      | Inr b \<Rightarrow>
          word_features ws cells
            (od_set features (feature_name word case_sensitive match_end) (VBool b)))"

definition digit_word_len_count :: "string list \<Rightarrow> (nat \<rightharpoonup> nat)" where
  "digit_word_len_count cells = Counter (map length (concat (map findall_digits cells)))"

text \<open>The loop over \<^verbatim>\<open>range(2, 5 + 1)\<close>.\<close>

fun digit_features :: "nat list \<Rightarrow> (nat \<rightharpoonup> nat) \<Rightarrow> features \<Rightarrow> features" where
  "digit_features [] cnt features = features"
| "digit_features (l # ls) cnt features =
     digit_features ls cnt
       (od_set features (''digit_of_len_'' @ str_nat l) (VInt (int (counter_get cnt l 0))))"

definition structural_features :: "dataframe \<Rightarrow> features" where
  "structural_features df =
     (let cells = cells_of df
      in [(''columns'', VInt (int (length (df_columns df)))),
          (''rows'', VInt (int (df_len df))),
          (''cell_words_min'', series_min (words_count_by_cell cells)),
          (''cell_words_mean'', series_mean (words_count_by_cell cells)),
          (''cell_words_max'', series_max (words_count_by_cell cells)),
          (''empty_cells'', VInt (int (empty_cells cells))),
          (''total_words'', VInt (int (total_words cells))),
          (''total_chars'', VInt (int (total_chars cells))),
          (''total_digits'', VInt (int (total_digits cells)))])"

definition get_table_features :: "dataframe \<Rightarrow> py_error + features" where
  "get_table_features df =
     (let cells = cells_of df;
          features = structural_features df
      in case truediv (int (total_digits cells)) (int (total_chars cells)) of
           Inl e \<Rightarrow> Inl e
         | Inr digits_perc \<Rightarrow>
             (case word_features words cells
                     (od_set features ''digits_perc'' (VFloat digits_perc)) of
                Inl e \<Rightarrow> Inl e
              | Inr features \<Rightarrow>
                  (let features =
                         digit_features [2..<5 + 1] (digit_word_len_count cells) features
                   in case predict_is_table features of
                        Inl e \<Rightarrow> Inl e
                      | Inr is_table \<Rightarrow>
                          move_to_front (od_set features ''is_table'' (VBool is_table))
                            ''is_table'')))"

subsection \<open>The batch loop\<close>

text \<open>A fragment is identified by article, page and table number. Reading its file
  (\<^verbatim>\<open>get_table_file\<close>, then \<^verbatim>\<open>read_csv\<close>) depends on the file system and is a
  parameter \<open>load\<close> of the loop; the state of the loop is \<^verbatim>\<open>feature_list\<close> and the
  messages written to the log.\<close>

type_synonym table_id = "string \<times> int \<times> int"

record batch =
  feature_list :: "features list"
  logged :: "string list"

definition str_int :: "int \<Rightarrow> string" where
  "str_int i = (if i < 0 then CHR ''-'' # str_nat (nat (- i)) else str_nat (nat i))"

definition failure_message :: "table_id \<Rightarrow> string" where
  "failure_message t =
     (case t of (article, page, table) \<Rightarrow>
        ''Failed to extract features for table '' @ article
          @ '' p.'' @ str_int page @ '' t.'' @ str_int table)"

definition extract_one :: "(table_id \<Rightarrow> py_error + dataframe) \<Rightarrow> table_id \<Rightarrow> py_error + features" where
  "extract_one load t = (case load t of Inl e \<Rightarrow> Inl e | Inr df \<Rightarrow> get_table_features df)"

fun extract_all ::
  "(table_id \<Rightarrow> py_error + dataframe) \<Rightarrow> table_id list \<Rightarrow> batch \<Rightarrow> batch" where
  "extract_all load [] st = st"
| "extract_all load (t # ts) st =
     (case extract_one load t of
        Inl e \<Rightarrow> extract_all load ts (st\<lparr>logged := logged st @ [failure_message t]\<rparr>)
      | Inr features \<Rightarrow>
          extract_all load ts (st\<lparr>feature_list := feature_list st @ [features]\<rparr>))"

definition run_batch :: "(table_id \<Rightarrow> py_error + dataframe) \<Rightarrow> table_id list \<Rightarrow> batch" where
  "run_batch load tables = extract_all load tables \<lparr>feature_list = [], logged = []\<rparr>"

text \<open>\<^verbatim>\<open>features_df = pd.DataFrame(feature_list)\<close> and
  \<^verbatim>\<open>tables = pd.concat([tables, features_df], axis=1)\<close>: both frames carry the index
  0, 1, 2, ..., and \<^verbatim>\<open>concat\<close> along axis 1 joins their rows by index; where one
  frame has no row for an index, its columns are left empty (\<open>None\<close>). The result is
  the table that the program writes out.\<close>

definition concat_axis1 :: "'a list \<Rightarrow> 'b list \<Rightarrow> ('a option \<times> 'b option) list" where
  "concat_axis1 xs ys =
     map (\<lambda>i. (if i < length xs then Some (xs ! i) else None,
               if i < length ys then Some (ys ! i) else None))
       [0..<max (length xs) (length ys)]"

definition output_table ::
  "(table_id \<Rightarrow> py_error + dataframe) \<Rightarrow> table_id list
     \<Rightarrow> (table_id option \<times> features option) list" where
  "output_table load tables = concat_axis1 tables (feature_list (run_batch load tables))"

subsection \<open>Notions used in the statements\<close>

text \<open>The keys of a dictionary after \<^verbatim>\<open>d[k] = v\<close>.\<close>

definition add_key :: "string list \<Rightarrow> string \<Rightarrow> string list" where
  "add_key ks k = (if k \<in> set ks then ks else ks @ [k])"

definition keys :: "features \<Rightarrow> string list" where
  "keys d = map fst d"

text \<open>The structural field names, in the order of the source.\<close>

definition structural_names :: "string list" where
  "structural_names =
     [''columns'', ''rows'', ''cell_words_min'', ''cell_words_mean'', ''cell_words_max'',
      ''empty_cells'', ''total_words'', ''total_chars'', ''total_digits'', ''digits_perc'']"

text \<open>A maximal run of digits in \<open>s\<close>: \<open>n\<close> digits from index \<open>i\<close> on, with no digit
  just before and none just after. \<open>before\<close> tells whether a digit stands left of
  \<open>s\<close>; for a whole cell it is \<open>False\<close>.\<close>

definition digit_run_at :: "bool \<Rightarrow> string \<Rightarrow> nat \<Rightarrow> nat \<Rightarrow> bool" where
  "digit_run_at before s i n =
     (0 < n \<and> i + n \<le> length s
      \<and> list_all is_ascii_digit (take n (drop i s))
      \<and> (if i = 0 then \<not> before else \<not> is_ascii_digit (s ! (i - 1)))
      \<and> (if i + n < length s then \<not> is_ascii_digit (s ! (i + n)) else True))"

text \<open>The number of maximal digit runs of length \<open>n\<close> in a cell, and in all cells.\<close>

definition count_digit_runs :: "string \<Rightarrow> nat \<Rightarrow> nat" where
  "count_digit_runs s n = length (filter (\<lambda>i. digit_run_at False s i n) [0..<length s])"

definition count_digit_runs_in :: "string list \<Rightarrow> nat \<Rightarrow> nat" where
  "count_digit_runs_in cells n = sum_list (map (\<lambda>c. count_digit_runs c n) cells)"

section \<open>Properties\<close>

subsection \<open>Ordered dictionaries and the feature loops\<close>

lemma is_word_in_unfold:
  "is_word_in word cells case_sensitive match_end =
     (case re_compile (word_pattern word match_end) (\<not> case_sensitive) of
        Inl e \<Rightarrow> Inl e
      | Inr p \<Rightarrow> Inr (any_cell_matches finditer_yields p cells))"
  by (simp add: is_word_in_def is_word_in_with_def)

lemma od_get_od_set: "od_get (od_set d k v) k' = (if k' = k then Some v else od_get d k')"
  by (induction d) (auto simp: od_get_def)

lemma keys_od_set: "keys (od_set d k v) = add_key (keys d) k"
  by (induction d) (force simp: keys_def add_key_def)+

lemma od_get_word_features:
  "word_features ws cells d = Inr d' \<Longrightarrow>
   k \<notin> set (map (\<lambda>(w, cs, me). feature_name w cs me) ws) \<Longrightarrow> od_get d' k = od_get d k"
proof (induction ws arbitrary: d)
  case Nil
  then show ?case by simp
next
  case (Cons a ws)
  obtain w cs me where a: "a = (w, cs, me)" by (cases a)
  from Cons.prems(1) obtain b where
    b: "is_word_in w cells cs me = Inr b"
    and rest: "word_features ws cells (od_set d (feature_name w cs me) (VBool b)) = Inr d'"
    by (auto simp: a split: sum.splits)
  from Cons.prems(2) have "k \<noteq> feature_name w cs me"
    and "k \<notin> set (map (\<lambda>(w, cs, me). feature_name w cs me) ws)"
    by (auto simp: a)
  with Cons.IH [OF rest] show ?case by (simp add: od_get_od_set)
qed

lemma keys_word_features:
  "word_features ws cells d = Inr d' \<Longrightarrow>
   keys d' = foldl add_key (keys d) (map (\<lambda>(w, cs, me). feature_name w cs me) ws)"
proof (induction ws arbitrary: d)
  case Nil
  then show ?case by simp
next
  case (Cons a ws)
  obtain w cs me where a: "a = (w, cs, me)" by (cases a)
  from Cons.prems obtain b where
    rest: "word_features ws cells (od_set d (feature_name w cs me) (VBool b)) = Inr d'"
    by (auto simp: a split: sum.splits)
  from Cons.IH [OF rest] show ?case by (simp add: a keys_od_set)
qed

lemma word_features_succeeds:
  "list_all (\<lambda>(w, cs, me). \<exists>p. re_compile (word_pattern w me) (\<not> cs) = Inr p) ws \<Longrightarrow>
   \<exists>d'. word_features ws cells d = Inr d'"
proof (induction ws arbitrary: d)
  case Nil
  then show ?case by simp
next
  case (Cons a ws)
  obtain w cs me where a: "a = (w, cs, me)" by (cases a)
  from Cons.prems obtain p where "re_compile (word_pattern w me) (\<not> cs) = Inr p"
    by (auto simp: a)
  then have "is_word_in w cells cs me = Inr (any_cell_matches finditer_yields p cells)"
    by (simp add: is_word_in_unfold)
  moreover from Cons.prems have
    "list_all (\<lambda>(w, cs, me). \<exists>p. re_compile (word_pattern w me) (\<not> cs) = Inr p) ws"
    by simp
  ultimately show ?case using Cons.IH by (simp add: a)
qed

lemma od_get_word_value:
  "word_features ws cells d = Inr d' \<Longrightarrow>
   (w, cs, me) \<in> set ws \<Longrightarrow>
   distinct (map (\<lambda>(w, cs, me). feature_name w cs me) ws) \<Longrightarrow>
   \<exists>b. is_word_in w cells cs me = Inr b \<and> od_get d' (feature_name w cs me) = Some (VBool b)"
proof (induction ws arbitrary: d)
  case Nil
  then show ?case by simp
next
  case (Cons a ws)
  obtain w' cs' me' where a: "a = (w', cs', me')" by (cases a)
  from Cons.prems(1) obtain b where
    b: "is_word_in w' cells cs' me' = Inr b"
    and rest: "word_features ws cells (od_set d (feature_name w' cs' me') (VBool b)) = Inr d'"
    by (auto simp: a split: sum.splits)
  from Cons.prems(3) have dist: "distinct (map (\<lambda>(w, cs, me). feature_name w cs me) ws)"
    and fresh: "feature_name w' cs' me' \<notin> set (map (\<lambda>(w, cs, me). feature_name w cs me) ws)"
    by (auto simp: a)
  show ?case
  proof (cases "(w, cs, me) \<in> set ws")
    case True
    from Cons.IH [OF rest True dist] show ?thesis .
  next
    case False
    with Cons.prems(2) have eq: "w = w'" "cs = cs'" "me = me'" by (auto simp: a)
    from od_get_word_features [OF rest fresh] b show ?thesis
      by (simp add: eq od_get_od_set)
  qed
qed


lemma map_of_filter_other:
  "k' \<noteq> k \<Longrightarrow> map_of (filter (\<lambda>kv. fst kv \<noteq> k) d) k' = map_of d k'"
  by (induction d) auto

lemma od_get_move_to_front:
  "move_to_front d k = Inr d' \<Longrightarrow> od_get d' k' = od_get d k'"
  by (auto simp: move_to_front_def od_get_def map_of_filter_other split: option.splits)

lemma keys_move_to_front:
  "move_to_front d k = Inr d' \<Longrightarrow> keys d' = k # filter (\<lambda>k'. k' \<noteq> k) (keys d)"
  by (auto simp: move_to_front_def keys_def filter_map comp_def split: option.splits)

lemma range_2_6: "[2..<5 + 1] = [2, 3, 4, 5::nat]"
  by (simp add: upt_rec)

lemma digit_names: "map (\<lambda>l. ''digit_of_len_'' @ str_nat l) [2, 3, 4, 5] =
  [''digit_of_len_2'', ''digit_of_len_3'', ''digit_of_len_4'', ''digit_of_len_5'']"
  by (simp add: str_nat.simps)

lemma od_get_digit_features:
  "od_get (digit_features [2..<5 + 1] cnt d) k =
     (if k = ''digit_of_len_5'' then Some (VInt (int (counter_get cnt 5 0)))
      else if k = ''digit_of_len_4'' then Some (VInt (int (counter_get cnt 4 0)))
      else if k = ''digit_of_len_3'' then Some (VInt (int (counter_get cnt 3 0)))
      else if k = ''digit_of_len_2'' then Some (VInt (int (counter_get cnt 2 0)))
      else od_get d k)"
  by (simp add: range_2_6 str_nat.simps od_get_od_set)

lemma keys_digit_features:
  "keys (digit_features ls cnt d) =
     foldl add_key (keys d) (map (\<lambda>l. ''digit_of_len_'' @ str_nat l) ls)"
  by (induction ls arbitrary: d) (auto simp: keys_od_set)

lemma get_table_features_cases:
  assumes "get_table_features df = Inr fs"
  obtains dp d1 b where
    "truediv (int (total_digits (cells_of df))) (int (total_chars (cells_of df))) = Inr dp"
    "word_features words (cells_of df)
       (od_set (structural_features df) ''digits_perc'' (VFloat dp)) = Inr d1"
    "predict_is_table (digit_features [2..<5 + 1] (digit_word_len_count (cells_of df)) d1) = Inr b"
    "move_to_front
       (od_set (digit_features [2..<5 + 1] (digit_word_len_count (cells_of df)) d1)
          ''is_table'' (VBool b)) ''is_table'' = Inr fs"
  using assms unfolding get_table_features_def Let_def
  by (auto split: sum.splits)

subsection \<open>Matching\<close>

lemma any_cell_matches_iff:
  "any_cell_matches yields p cells = (\<exists>c \<in> set cells. yields p c)"
  by (induction cells) auto

text \<open>A search succeeds exactly when the items match at some position of the string.\<close>

lemma search_from_iff:
  "search_from ic p prev s =
     (\<exists>i. i \<le> length s \<and>
        match_here ic p (if i = 0 then prev else Some (s ! (i - 1))) (drop i s))"
proof (induction s arbitrary: prev)
  case Nil
  then show ?case by simp
next
  case (Cons c cs)
  have "(\<exists>i. i \<le> length (c # cs) \<and>
           match_here ic p (if i = 0 then prev else Some ((c # cs) ! (i - 1))) (drop i (c # cs)))
        = (match_here ic p prev (c # cs) \<or>
           (\<exists>j. j \<le> length cs \<and>
              match_here ic p (if j = 0 then Some c else Some (cs ! (j - 1))) (drop j cs)))"
    (is "?L = (?A \<or> ?B)")
  proof
    assume ?L
    then obtain i where i: "i \<le> length (c # cs)"
      "match_here ic p (if i = 0 then prev else Some ((c # cs) ! (i - 1))) (drop i (c # cs))"
      by blast
    show "?A \<or> ?B"
    proof (cases i)
      case 0
      with i show ?thesis by simp
    next
      case (Suc j)
      with i have "j \<le> length cs"
        and "match_here ic p (if j = 0 then Some c else Some (cs ! (j - 1))) (drop j cs)"
        by (auto simp: nth_Cons' split: if_splits)
      then show ?thesis by blast
    qed
  next
    assume "?A \<or> ?B"
    then show ?L
    proof
      assume ?A
      then show ?L by (intro exI [of _ 0]) simp
    next
      assume ?B
      then obtain j where j: "j \<le> length cs"
        "match_here ic p (if j = 0 then Some c else Some (cs ! (j - 1))) (drop j cs)"
        by blast
      then show ?L by (intro exI [of _ "Suc j"]) (auto simp: nth_Cons')
    qed
  qed
  with Cons.IH [of "Some c"] show ?case by simp
qed

lemmas re_parse_eval = re_compile_def word_pattern_def then_items_def parse_escape_def
  parse_plain_def code_point_def is_ascii_alnum_def

lemma eq_char_of_iff: "c = char_of (n::nat) \<longleftrightarrow> of_char c = take_bit 8 n"
  by (metis char_of_eq_iff)

lemmas re_match_eval = finditer_yields_def at_boundary_def is_word_char_def isalnum_def
  code_point_def lower_char_def char_of_eq_iff eq_char_of_iff

lemma compile_words:
  "list_all (\<lambda>(w, cs, me). \<exists>p. re_compile (word_pattern w me) (\<not> cs) = Inr p) words"
  by (simp add: words_def re_parse_eval)

subsection \<open>is\_word\_in\<close>

text \<open>C4. With pattern BP, case-sensitive and with the end boundary, \<open>is_word_in\<close> is
  true on every collection that contains the cell \<open>12000 BP\<close> and false on a collection
  whose cells are all \<open>12000 bp\<close> or \<open>BPx\<close>; with pattern age, case-insensitive and
  without the end boundary, it is true on every collection that contains \<open>ages\<close> or
  \<open>Age:\<close>.\<close>

theorem is_word_in_examples:
  "(''12000 BP'' \<in> set cells \<longrightarrow> is_word_in ''BP'' cells True True = Inr True)
   \<and> (set cells \<subseteq> {''12000 bp'', ''BPx''} \<longrightarrow> is_word_in ''BP'' cells True True = Inr False)
   \<and> (''ages'' \<in> set cells \<or> ''Age:'' \<in> set cells \<longrightarrow>
        is_word_in ''age'' cells False False = Inr True)"
proof -
  have bp: "is_word_in ''BP'' cells True True
      = Inr (\<exists>c \<in> set cells. finditer_yields (Pattern [AtBoundary, Literal CHR ''B'', Literal CHR ''P'', AtBoundary] False) c)"
    by (simp add: is_word_in_unfold re_parse_eval any_cell_matches_iff)
  have age: "is_word_in ''age'' cells False False
      = Inr (\<exists>c \<in> set cells. finditer_yields (Pattern [AtBoundary, Literal CHR ''a'', Literal CHR ''g'', Literal CHR ''e''] True) c)"
    by (simp add: is_word_in_unfold re_parse_eval any_cell_matches_iff)
  have y1: "finditer_yields (Pattern [AtBoundary, Literal CHR ''B'', Literal CHR ''P'', AtBoundary] False) ''12000 BP''"
    by (simp add: re_match_eval)
  have n1: "\<not> finditer_yields (Pattern [AtBoundary, Literal CHR ''B'', Literal CHR ''P'', AtBoundary] False) ''12000 bp''"
    by (simp add: re_match_eval)
  have n2: "\<not> finditer_yields (Pattern [AtBoundary, Literal CHR ''B'', Literal CHR ''P'', AtBoundary] False) ''BPx''"
    by (simp add: re_match_eval)
  have y2: "finditer_yields (Pattern [AtBoundary, Literal CHR ''a'', Literal CHR ''g'', Literal CHR ''e''] True) ''ages''"
    by (simp add: re_match_eval)
  have y3: "finditer_yields (Pattern [AtBoundary, Literal CHR ''a'', Literal CHR ''g'', Literal CHR ''e''] True) ''Age:''"
    by (simp add: re_match_eval)
  show ?thesis
    unfolding bp age using y1 n1 n2 y2 y3 by blast
qed

theorem is_word_in_examples_witness:
  "is_word_in ''BP'' [''n.d.'', ''12000 BP''] True True = Inr True
   \<and> is_word_in ''BP'' [''12000 bp''] True True = Inr False
   \<and> is_word_in ''BP'' [''BPx''] True True = Inr False
   \<and> is_word_in ''age'' [''ages''] False False = Inr True
   \<and> is_word_in ''age'' [''Age:''] False False = Inr True"
  using is_word_in_examples [of "[''n.d.'', ''12000 BP'']"]
    is_word_in_examples [of "[''12000 bp'']"]
    is_word_in_examples [of "[''BPx'']"]
    is_word_in_examples [of "[''ages'']"]
    is_word_in_examples [of "[''Age:'']"]
  by simp

text \<open>C5, as amended. Whatever \<^verbatim>\<open>re.compile\<close> and \<^verbatim>\<open>finditer\<close> do: when the pattern
  compiles, \<open>is_word_in\<close> returns without an error, and it returns true exactly when
  \<^verbatim>\<open>finditer\<close> yields a match in some cell; so the result depends only on the set of
  cells, not on their order, and it is false on the empty collection. When the
  pattern does not compile, \<open>is_word_in\<close> raises the error of \<^verbatim>\<open>re.compile\<close>, whatever
  the cells are. In the modelled part of \<^verbatim>\<open>re\<close>, all patterns of the catalog compile,
  and \<^verbatim>\<open>finditer\<close> yields a match exactly when the items match at some position.\<close>

theorem is_word_in_exists:
  "(compile (word_pattern word match_end) (\<not> case_sensitive) = Inr p \<longrightarrow>
      is_word_in_with compile yields word cells case_sensitive match_end
        = Inr (\<exists>c \<in> set cells. yields p c)
      \<and> (set cells' = set cells \<longrightarrow>
           is_word_in_with compile yields word cells' case_sensitive match_end
             = is_word_in_with compile yields word cells case_sensitive match_end)
      \<and> is_word_in_with compile yields word [] case_sensitive match_end = Inr False)
   \<and> (compile (word_pattern word match_end) (\<not> case_sensitive) = Inl e \<longrightarrow>
        is_word_in_with compile yields word cells case_sensitive match_end = Inl e
        \<and> is_word_in_with compile yields word [] case_sensitive match_end = Inl e)
   \<and> is_word_in word cells case_sensitive match_end
        = is_word_in_with re_compile finditer_yields word cells case_sensitive match_end
   \<and> list_all (\<lambda>(w, cs, me). \<exists>q. re_compile (word_pattern w me) (\<not> cs) = Inr q) words
   \<and> finditer_yields q c
        = (\<exists>i. i \<le> length c \<and>
             match_here (ignorecase q) (items q)
               (if i = 0 then None else Some (c ! (i - 1))) (drop i c))"
proof -
  have ok: "is_word_in_with compile yields word cells case_sensitive match_end
        = Inr (\<exists>c \<in> set cells. yields p c)
      \<and> (set cells' = set cells \<longrightarrow>
           is_word_in_with compile yields word cells' case_sensitive match_end
             = is_word_in_with compile yields word cells case_sensitive match_end)
      \<and> is_word_in_with compile yields word [] case_sensitive match_end = Inr False"
    if "compile (word_pattern word match_end) (\<not> case_sensitive) = Inr p"
    using that by (simp add: is_word_in_with_def any_cell_matches_iff)
  have err: "is_word_in_with compile yields word cells case_sensitive match_end = Inl e
        \<and> is_word_in_with compile yields word [] case_sensitive match_end = Inl e"
    if "compile (word_pattern word match_end) (\<not> case_sensitive) = Inl e"
    using that by (simp add: is_word_in_with_def)
  have inst: "is_word_in word cells case_sensitive match_end
        = is_word_in_with re_compile finditer_yields word cells case_sensitive match_end"
    by (simp add: is_word_in_def)
  have pos: "finditer_yields q c
        = (\<exists>i. i \<le> length c \<and>
             match_here (ignorecase q) (items q)
               (if i = 0 then None else Some (c ! (i - 1))) (drop i c))"
    by (simp add: finditer_yields_def search_from_iff)
  from inst compile_words pos have rest:
    "is_word_in word cells case_sensitive match_end
        = is_word_in_with re_compile finditer_yields word cells case_sensitive match_end
     \<and> list_all (\<lambda>(w, cs, me). \<exists>q. re_compile (word_pattern w me) (\<not> cs) = Inr q) words
     \<and> finditer_yields q c
        = (\<exists>i. i \<le> length c \<and>
             match_here (ignorecase q) (items q)
               (if i = 0 then None else Some (c ! (i - 1))) (drop i c))"
    by (intro conjI)
  show ?thesis
    apply (rule conjI)
     apply (rule impI)
     apply (erule ok)
    apply (rule conjI)
     apply (rule impI)
     apply (erule err)
    apply (rule rest)
    done
qed

theorem is_word_in_exists_witness:
  "is_word_in ''BP'' [''12000 BP'', ''AMS''] True True
     = is_word_in ''BP'' [''AMS'', ''12000 BP''] True True
   \<and> is_word_in ''BP'' [] True True = Inr False
   \<and> is_word_in [backslash] [''12000 BP''] True False = Inl ReError"
proof -
  have c: "re_compile (word_pattern ''BP'' True) (\<not> True)
      = Inr (Pattern [AtBoundary, Literal CHR ''B'', Literal CHR ''P'', AtBoundary] False)"
    by (simp add: re_parse_eval)
  have s: "set [''12000 BP'', ''AMS''] = set [''AMS'', ''12000 BP'']"
    by (simp add: insert_commute)
  have b: "re_compile (word_pattern [backslash] False) (\<not> True) = Inl ReError"
    by (simp add: re_parse_eval)
  note t = is_word_in_exists [of re_compile "''BP''" True True
      "Pattern [AtBoundary, Literal CHR ''B'', Literal CHR ''P'', AtBoundary] False"
      finditer_yields "[''AMS'', ''12000 BP'']" "[''12000 BP'', ''AMS'']"]
  note u = is_word_in_exists [of re_compile "[backslash]" False True _ finditer_yields
      "[''12000 BP'']" _ ReError]
  from t [THEN conjunct1, rule_format, OF c, THEN conjunct2, THEN conjunct1, rule_format, OF s]
  have 1: "is_word_in ''BP'' [''12000 BP'', ''AMS''] True True
     = is_word_in ''BP'' [''AMS'', ''12000 BP''] True True"
    by (simp only: is_word_in_def)
  from t [THEN conjunct1, rule_format, OF c, THEN conjunct2, THEN conjunct2]
  have 2: "is_word_in ''BP'' [] True True = Inr False"
    by (simp only: is_word_in_def)
  from u [THEN conjunct2, THEN conjunct1, rule_format, OF b, THEN conjunct1]
  have 3: "is_word_in [backslash] [''12000 BP''] True False = Inl ReError"
    by (simp only: is_word_in_def)
  from 1 2 3 show ?thesis by (intro conjI)
qed

text \<open>The claim as stated fails: a pattern that does not compile makes \<open>is_word_in\<close>
  raise \<^verbatim>\<open>re.error\<close>, also on the empty collection. Here the word is a single
  backslash, so that the pattern is \<^verbatim>\<open>\b\\<close>.\<close>

theorem is_word_in_fails_counterexample:
  "is_word_in [backslash] [] True False = Inl ReError
   \<and> is_word_in [backslash] [] True False \<noteq> Inr False"
  by (simp add: is_word_in_unfold re_parse_eval)

subsection \<open>The record of get\_table\_features\<close>

lemma word_feature_names:
  "map (\<lambda>(w, cs, me). feature_name w cs me) words =
     [''w_ci_e_age'', ''w_ci_e_date'', ''w_ci_ne_year'', ''w_cs_e_BP'', ''w_cs_e_BC'',
      ''w_ci_e_ad'', ''w_cs_e_Ka'', ''w_ci_e_cal'', ''w_ci_ne_painting'', ''w_ci_ne_drawing'',
      ''w_ci_ne_engraving'', ''w_ci_ne_pictograph'', ''w_ci_ne_petroglyph'', ''w_cs_e_AMS'',
      ''w_ci_ne_uranium_serie'', ''w_ci_e_radiocarbon'', ''w_ci_e_rc14'', ''w_ci_e_charcoal'',
      ''w_ci_ne_pigment'', ''w_ci_ne_calcite'', ''w_ci_e_beeswax'', ''w_ci_e_varnish'',
      ''w_ci_ne_bone'', ''w_ci_ne_cave'', ''w_ci_ne_site'']"
  by (simp add: words_def feature_name_def lower_def lower_char_def code_point_def char_of_eq_iff)

lemma get_table_features_fails:
  "total_chars (cells_of df) = 0 \<Longrightarrow> get_table_features df = Inl ZeroDivisionError"
  by (simp add: get_table_features_def truediv_def)

lemma od_get_structural:
  "od_get (structural_features df) k =
     (if k = ''columns'' then Some (VInt (int (length (df_columns df))))
      else if k = ''rows'' then Some (VInt (int (df_len df)))
      else if k = ''cell_words_min'' then Some (series_min (words_count_by_cell (cells_of df)))
      else if k = ''cell_words_mean'' then Some (series_mean (words_count_by_cell (cells_of df)))
      else if k = ''cell_words_max'' then Some (series_max (words_count_by_cell (cells_of df)))
      else if k = ''empty_cells'' then Some (VInt (int (empty_cells (cells_of df))))
      else if k = ''total_words'' then Some (VInt (int (total_words (cells_of df))))
      else if k = ''total_chars'' then Some (VInt (int (total_chars (cells_of df))))
      else if k = ''total_digits'' then Some (VInt (int (total_digits (cells_of df))))
      else None)"
  by (simp add: structural_features_def Let_def od_get_def)

lemma keys_structural:
  "keys (od_set (structural_features df) ''digits_perc'' v) = structural_names"
  by (simp add: structural_features_def Let_def keys_def structural_names_def)

text \<open>The lookups in the record that the word loop leaves.\<close>

lemma od_get_after_words:
  assumes "word_features words cells (od_set (structural_features df) ''digits_perc'' v) = Inr d1"
      and "k \<in> set structural_names"
  shows "od_get d1 k = (if k = ''digits_perc'' then Some v else od_get (structural_features df) k)"
proof -
  from assms(2) have "k \<notin> set (map (\<lambda>(w, cs, me). feature_name w cs me) words)"
    unfolding word_feature_names by (auto simp: structural_names_def)
  from od_get_word_features [OF assms(1) this] show ?thesis
    by (simp add: od_get_od_set)
qed

lemma od_get_after_digits:
  assumes "word_features words cells (od_set (structural_features df) ''digits_perc'' v) = Inr d1"
      and "k \<in> set structural_names"
  shows "od_get (digit_features [2..<5 + 1] cnt d1) k
           = (if k = ''digits_perc'' then Some v else od_get (structural_features df) k)"
proof -
  from assms(2) have "od_get (digit_features [2..<5 + 1] cnt d1) k = od_get d1 k"
    unfolding od_get_digit_features by (auto simp: structural_names_def)
  with od_get_after_words [OF assms] show ?thesis by simp
qed

lemma predict_after_digits:
  assumes "word_features words cells (od_set (structural_features df) ''digits_perc'' v) = Inr d1"
  shows "predict_is_table (digit_features [2..<5 + 1] cnt d1)
           = Inr (value_gt v (1 / 10)
                  \<and> value_lt (series_mean (words_count_by_cell (cells_of df))) 5)"
proof -
  have "od_get (digit_features [2..<5 + 1] cnt d1) ''digits_perc'' = Some v"
    using od_get_after_digits [OF assms, of "''digits_perc''"] by (simp add: structural_names_def)
  moreover have "od_get (digit_features [2..<5 + 1] cnt d1) ''cell_words_mean''
      = Some (series_mean (words_count_by_cell (cells_of df)))"
    using od_get_after_digits [OF assms, of "''cell_words_mean''"]
    by (simp add: structural_names_def od_get_structural)
  ultimately show ?thesis by (simp add: predict_is_table_def)
qed

lemma get_table_features_succeeds:
  assumes "total_chars (cells_of df) \<noteq> 0"
  shows "\<exists>fs. get_table_features df = Inr fs"
proof -
  let ?dp = "Fin (of_int (int (total_digits (cells_of df))) / of_int (int (total_chars (cells_of df))))"
  from assms have dp: "truediv (int (total_digits (cells_of df))) (int (total_chars (cells_of df))) = Inr ?dp"
    by (simp add: truediv_def)
  from word_features_succeeds [OF compile_words] obtain d1 where
    d1: "word_features words (cells_of df)
           (od_set (structural_features df) ''digits_perc'' (VFloat ?dp)) = Inr d1"
    by blast
  note p = predict_after_digits [OF d1, of "digit_word_len_count (cells_of df)"]
  show ?thesis
    unfolding get_table_features_def Let_def dp sum.case d1 p
    by (simp add: move_to_front_def od_get_od_set)
qed

text \<open>The fields of a returned record.\<close>

lemma get_table_features_fields:
  assumes "get_table_features df = Inr fs"
  shows "total_chars (cells_of df) \<noteq> 0"
    and "od_get fs ''digits_perc''
           = Some (VFloat (Fin (of_int (int (total_digits (cells_of df)))
                                / of_int (int (total_chars (cells_of df))))))"
    and "k \<in> set structural_names \<Longrightarrow> k \<noteq> ''digits_perc'' \<Longrightarrow>
           od_get fs k = od_get (structural_features df) k"
    and "od_get fs ''is_table''
           = Some (VBool (1 / 10 < (of_int (int (total_digits (cells_of df)))
                                     / of_int (int (total_chars (cells_of df))) :: rat)
                          \<and> value_lt (series_mean (words_count_by_cell (cells_of df))) 5))"
proof -
  from assms obtain dp d1 b where
    dp: "truediv (int (total_digits (cells_of df))) (int (total_chars (cells_of df))) = Inr dp"
    and d1: "word_features words (cells_of df)
       (od_set (structural_features df) ''digits_perc'' (VFloat dp)) = Inr d1"
    and b: "predict_is_table (digit_features [2..<5 + 1] (digit_word_len_count (cells_of df)) d1) = Inr b"
    and fs: "move_to_front
       (od_set (digit_features [2..<5 + 1] (digit_word_len_count (cells_of df)) d1)
          ''is_table'' (VBool b)) ''is_table'' = Inr fs"
    by (rule get_table_features_cases)
  from dp show nz: "total_chars (cells_of df) \<noteq> 0"
    by (auto simp: truediv_def split: if_splits)
  from dp nz have dp_eq: "dp = Fin (of_int (int (total_digits (cells_of df)))
                                / of_int (int (total_chars (cells_of df))))"
    by (simp add: truediv_def)
  have look: "od_get fs k = (if k = ''is_table'' then Some (VBool b)
      else od_get (digit_features [2..<5 + 1] (digit_word_len_count (cells_of df)) d1) k)" for k
    using od_get_move_to_front [OF fs, of k] by (simp add: od_get_od_set)
  show "od_get fs ''digits_perc''
           = Some (VFloat (Fin (of_int (int (total_digits (cells_of df)))
                                / of_int (int (total_chars (cells_of df))))))"
    using od_get_after_digits [OF d1, of "''digits_perc''"]
    by (simp add: look structural_names_def dp_eq)
  show "od_get fs k = od_get (structural_features df) k"
    if "k \<in> set structural_names" "k \<noteq> ''digits_perc''"
  proof -
    from that have "k \<noteq> ''is_table''" by (auto simp: structural_names_def)
    with od_get_after_digits [OF d1 that(1)] that(2) show ?thesis by (simp add: look)
  qed
  from b predict_after_digits [OF d1, of "digit_word_len_count (cells_of df)"]
  have "b = (value_gt (VFloat dp) (1 / 10)
             \<and> value_lt (series_mean (words_count_by_cell (cells_of df))) 5)"
    by simp
  then show "od_get fs ''is_table''
           = Some (VBool (1 / 10 < (of_int (int (total_digits (cells_of df)))
                                     / of_int (int (total_chars (cells_of df))) :: rat)
                          \<and> value_lt (series_mean (words_count_by_cell (cells_of df))) 5))"
    by (simp add: look dp_eq value_gt_def)
qed

lemma get_table_features_digit_fields:
  assumes "get_table_features df = Inr fs"
  shows "od_get fs ''digit_of_len_2'' = Some (VInt (int (counter_get (digit_word_len_count (cells_of df)) 2 0)))"
    and "od_get fs ''digit_of_len_3'' = Some (VInt (int (counter_get (digit_word_len_count (cells_of df)) 3 0)))"
    and "od_get fs ''digit_of_len_4'' = Some (VInt (int (counter_get (digit_word_len_count (cells_of df)) 4 0)))"
    and "od_get fs ''digit_of_len_5'' = Some (VInt (int (counter_get (digit_word_len_count (cells_of df)) 5 0)))"
proof -
  from assms obtain dp d1 b where
    fs: "move_to_front
       (od_set (digit_features [2..<5 + 1] (digit_word_len_count (cells_of df)) d1)
          ''is_table'' (VBool b)) ''is_table'' = Inr fs"
    by (rule get_table_features_cases)
  have look: "od_get fs k = (if k = ''is_table'' then Some (VBool b)
      else od_get (digit_features [2..<5 + 1] (digit_word_len_count (cells_of df)) d1) k)" for k
    using od_get_move_to_front [OF fs, of k] by (simp add: od_get_od_set)
  show "od_get fs ''digit_of_len_2'' = Some (VInt (int (counter_get (digit_word_len_count (cells_of df)) 2 0)))"
    and "od_get fs ''digit_of_len_3'' = Some (VInt (int (counter_get (digit_word_len_count (cells_of df)) 3 0)))"
    and "od_get fs ''digit_of_len_4'' = Some (VInt (int (counter_get (digit_word_len_count (cells_of df)) 4 0)))"
    and "od_get fs ''digit_of_len_5'' = Some (VInt (int (counter_get (digit_word_len_count (cells_of df)) 5 0)))"
    unfolding look od_get_digit_features by simp_all
qed

lemma get_table_features_keys:
  assumes "get_table_features df = Inr fs"
  shows "keys fs =
     ''is_table'' # structural_names
       @ map (\<lambda>(w, cs, me). feature_name w cs me) words
       @ map (\<lambda>l. ''digit_of_len_'' @ str_nat l) [2, 3, 4, 5]"
proof -
  from assms obtain dp d1 b where
    d1: "word_features words (cells_of df)
       (od_set (structural_features df) ''digits_perc'' (VFloat dp)) = Inr d1"
    and fs: "move_to_front
       (od_set (digit_features [2..<5 + 1] (digit_word_len_count (cells_of df)) d1)
          ''is_table'' (VBool b)) ''is_table'' = Inr fs"
    by (rule get_table_features_cases)
  have k1: "keys d1 = foldl add_key structural_names
      (map (\<lambda>(w, cs, me). feature_name w cs me) words)"
    using keys_word_features [OF d1] by (simp only: keys_structural)
  have k2: "keys (digit_features [2..<5 + 1] (digit_word_len_count (cells_of df)) d1)
      = foldl add_key (keys d1) (map (\<lambda>l. ''digit_of_len_'' @ str_nat l) [2, 3, 4, 5])"
    by (simp only: keys_digit_features range_2_6)
  have k3: "keys fs = ''is_table'' # filter (\<lambda>k'. k' \<noteq> ''is_table'')
      (add_key (keys (digit_features [2..<5 + 1] (digit_word_len_count (cells_of df)) d1))
         ''is_table'')"
    using keys_move_to_front [OF fs] by (simp only: keys_od_set)
  show ?thesis
    unfolding k3 k2 k1 word_feature_names digit_names structural_names_def
    by (simp add: add_key_def)
qed

subsection \<open>Statistics\<close>

lemma total_digits_le_total_chars: "total_digits cells \<le> total_chars cells"
  by (simp add: total_digits_def total_chars_def)

lemma total_words_sum:
  "int (total_words cells) = sum_list (words_count_by_cell cells)"
  by (induction cells) (simp_all add: total_words_def words_count_by_cell_def)

lemma sum_list_lower: "\<forall>x \<in> set xs. m \<le> x \<Longrightarrow> m * int (length xs) \<le> sum_list xs"
  by (induction xs) (auto simp: algebra_simps)

lemma sum_list_upper: "\<forall>x \<in> set xs. x \<le> m \<Longrightarrow> sum_list xs \<le> m * int (length xs)"
  by (induction xs) (auto simp: algebra_simps)

lemma mean_between:
  assumes "xs \<noteq> []"
  shows "(of_int (Min (set xs)) :: rat) \<le> of_int (sum_list xs) / of_int (int (length xs))"
    and "(of_int (sum_list xs) / of_int (int (length xs)) :: rat) \<le> of_int (Max (set xs))"
proof -
  from assms have pos: "(0::rat) < of_int (int (length xs))" by simp
  have "Min (set xs) * int (length xs) \<le> sum_list xs"
    by (rule sum_list_lower) simp
  then have "(of_int (Min (set xs) * int (length xs)) :: rat) \<le> of_int (sum_list xs)"
    by (simp only: of_int_le_iff)
  then show "(of_int (Min (set xs)) :: rat) \<le> of_int (sum_list xs) / of_int (int (length xs))"
    using pos by (simp add: pos_le_divide_eq)
  have "sum_list xs \<le> Max (set xs) * int (length xs)"
    by (rule sum_list_upper) simp
  then have "(of_int (sum_list xs) :: rat) \<le> of_int (Max (set xs) * int (length xs))"
    by (simp only: of_int_le_iff)
  then show "(of_int (sum_list xs) / of_int (int (length xs)) :: rat) \<le> of_int (Max (set xs))"
    using pos by (simp add: pos_divide_le_eq)
qed

lemma cells_nonempty: "total_chars cells \<noteq> 0 \<Longrightarrow> cells \<noteq> []"
  by (auto simp: total_chars_def)

lemma get_table_features_word_fields:
  assumes "get_table_features df = Inr fs" and "(w, cs, me) \<in> set words"
  shows "\<exists>b. is_word_in w (cells_of df) cs me = Inr b
           \<and> od_get fs (feature_name w cs me) = Some (VBool b)"
proof -
  from assms(1) obtain dp d1 b0 where
    d1: "word_features words (cells_of df)
       (od_set (structural_features df) ''digits_perc'' (VFloat dp)) = Inr d1"
    and fs: "move_to_front
       (od_set (digit_features [2..<5 + 1] (digit_word_len_count (cells_of df)) d1)
          ''is_table'' (VBool b0)) ''is_table'' = Inr fs"
    by (rule get_table_features_cases)
  have dist: "distinct (map (\<lambda>(w, cs, me). feature_name w cs me) words)"
    unfolding word_feature_names by simp
  from od_get_word_value [OF d1 assms(2) dist] obtain b where
    b: "is_word_in w (cells_of df) cs me = Inr b"
    and v: "od_get d1 (feature_name w cs me) = Some (VBool b)"
    by blast
  from assms(2) have "feature_name w cs me \<in> set (map (\<lambda>(w, cs, me). feature_name w cs me) words)"
    by force
  then have other: "feature_name w cs me \<noteq> ''is_table''"
    "feature_name w cs me \<noteq> ''digit_of_len_2''" "feature_name w cs me \<noteq> ''digit_of_len_3''"
    "feature_name w cs me \<noteq> ''digit_of_len_4''" "feature_name w cs me \<noteq> ''digit_of_len_5''"
    unfolding word_feature_names by auto
  have "od_get fs (feature_name w cs me)
      = od_get (digit_features [2..<5 + 1] (digit_word_len_count (cells_of df)) d1)
          (feature_name w cs me)"
    using od_get_move_to_front [OF fs, of "feature_name w cs me"] other(1)
    by (simp add: od_get_od_set)
  also have "\<dots> = od_get d1 (feature_name w cs me)"
    unfolding od_get_digit_features using other by simp
  finally show ?thesis using b v by simp
qed

subsection \<open>Example grids\<close>

lemma example_cells:
  "cells_of (from_rows ([''1234'', ''text here''] # [''5678'', ''a b c d e f''] # []))
     = [''1234'', ''5678'', ''text here'', ''a b c d e f'']"
  by (simp add: cells_of_def from_rows_def upt_rec)

lemmas split_eval = words_count_by_cell_def split_def isspace_def code_point_def

lemma example_stats:
  "total_chars [''1234'', ''5678'', ''text here'', ''a b c d e f''] = 28"
  "total_digits [''1234'', ''5678'', ''text here'', ''a b c d e f''] = 8"
  "total_words [''1234'', ''5678'', ''text here'', ''a b c d e f''] = 10"
  "words_count_by_cell [''1234'', ''5678'', ''text here'', ''a b c d e f''] = [1, 1, 2, 6]"
  by (simp_all add: total_chars_def total_digits_def total_words_def is_ascii_digit_def split_eval)

lemma example_record:
  assumes "get_table_features
      (from_rows ([''1234'', ''text here''] # [''5678'', ''a b c d e f''] # [])) = Inr fs"
  shows "od_get fs ''total_digits'' = Some (VInt 8)"
    and "od_get fs ''total_chars'' = Some (VInt 28)"
    and "od_get fs ''digits_perc'' = Some (VFloat (Fin (8 / 28)))"
    and "od_get fs ''cell_words_mean'' = Some (VFloat (Fin (5 / 2)))"
    and "od_get fs ''is_table'' = Some (VBool True)"
  using get_table_features_fields(2) [OF assms]
    get_table_features_fields(3) [OF assms, of "''total_digits''"]
    get_table_features_fields(3) [OF assms, of "''total_chars''"]
    get_table_features_fields(3) [OF assms, of "''cell_words_mean''"]
    get_table_features_fields(4) [OF assms]
  by (simp_all add: example_cells example_stats structural_names_def od_get_structural
      series_mean_def value_lt_def)

lemma empty_grid_cells:
  "cells_of (from_rows ([''''] # [])) = ['''']"
  "cells_of (from_rows (['''', ''''] # ['''', ''''] # [])) = ['''', '''', '''', '''']"
  by (simp_all add: cells_of_def from_rows_def upt_rec)

lemma small_grid_cells:
  "cells_of (from_rows ([''a1'', ''b c''] # [])) = [''a1'', ''b c'']"
  by (simp add: cells_of_def from_rows_def upt_rec)

subsection \<open>Claims about get\_table\_features\<close>

text \<open>C1. On a record whose \<open>digits_perc\<close> and \<open>cell_words_mean\<close> are numbers,
  \<open>predict_is_table\<close> returns true exactly when \<open>digits_perc\<close> is strictly greater than
  0.1 and \<open>cell_words_mean\<close> is strictly less than 5. Every record that
  \<open>get_table_features\<close> returns is such a record, and its \<open>is_table\<close> field holds this
  classification.\<close>

theorem predict_is_table_rule:
  "(od_get s ''digits_perc'' = Some (VFloat (Fin d))
      \<and> od_get s ''cell_words_mean'' = Some (VFloat (Fin m))
    \<longrightarrow> predict_is_table s = Inr (1 / 10 < d \<and> m < 5))
   \<and> (get_table_features df = Inr fs \<longrightarrow>
        (\<exists>d m. od_get fs ''digits_perc'' = Some (VFloat (Fin d))
           \<and> od_get fs ''cell_words_mean'' = Some (VFloat (Fin m))
           \<and> predict_is_table fs = Inr (1 / 10 < d \<and> m < 5)
           \<and> od_get fs ''is_table'' = Some (VBool (1 / 10 < d \<and> m < 5))))"
proof (intro conjI impI)
  assume "od_get s ''digits_perc'' = Some (VFloat (Fin d))
      \<and> od_get s ''cell_words_mean'' = Some (VFloat (Fin m))"
  then show "predict_is_table s = Inr (1 / 10 < d \<and> m < 5)"
    by (simp add: predict_is_table_def value_gt_def value_lt_def)
next
  assume fs: "get_table_features df = Inr fs"
  let ?wc = "words_count_by_cell (cells_of df)"
  let ?d = "of_int (int (total_digits (cells_of df)))
              / of_int (int (total_chars (cells_of df))) :: rat"
  let ?m = "of_int (sum_list ?wc) / of_int (int (length ?wc)) :: rat"
  from get_table_features_fields(1) [OF fs] have "cells_of df \<noteq> []"
    by (rule cells_nonempty)
  then have mean: "series_mean ?wc = VFloat (Fin ?m)"
    by (simp add: series_mean_def words_count_by_cell_def)
  have d: "od_get fs ''digits_perc'' = Some (VFloat (Fin ?d))"
    by (rule get_table_features_fields(2) [OF fs])
  have m: "od_get fs ''cell_words_mean'' = Some (VFloat (Fin ?m))"
    using get_table_features_fields(3) [OF fs, of "''cell_words_mean''"]
    by (simp add: structural_names_def od_get_structural mean)
  have p: "predict_is_table fs = Inr (1 / 10 < ?d \<and> ?m < 5)"
    using d m by (simp add: predict_is_table_def value_gt_def value_lt_def)
  have t: "od_get fs ''is_table'' = Some (VBool (1 / 10 < ?d \<and> ?m < 5))"
    using get_table_features_fields(4) [OF fs] by (simp add: mean value_lt_def)
  from d m p t
  show "\<exists>d m. od_get fs ''digits_perc'' = Some (VFloat (Fin d))
           \<and> od_get fs ''cell_words_mean'' = Some (VFloat (Fin m))
           \<and> predict_is_table fs = Inr (1 / 10 < d \<and> m < 5)
           \<and> od_get fs ''is_table'' = Some (VBool (1 / 10 < d \<and> m < 5))"
    by (intro exI [of _ ?d] exI [of _ ?m] conjI)
qed

theorem predict_is_table_rule_witness:
  "predict_is_table
     [(''cell_words_mean'', VFloat (Fin 2)), (''digits_perc'', VFloat (Fin (1 / 5)))] = Inr True
   \<and> predict_is_table
     [(''cell_words_mean'', VFloat (Fin 5)), (''digits_perc'', VFloat (Fin (1 / 5)))] = Inr False
   \<and> predict_is_table
     [(''cell_words_mean'', VFloat (Fin 2)), (''digits_perc'', VFloat (Fin (1 / 10)))] = Inr False
   \<and> (\<exists>fs. get_table_features (from_rows ([''a1'', ''b c''] # [])) = Inr fs
         \<and> od_get fs ''digits_perc'' = Some (VFloat (Fin (1 / 5)))
         \<and> od_get fs ''cell_words_mean'' = Some (VFloat (Fin (3 / 2)))
         \<and> od_get fs ''is_table'' = Some (VBool True))"
proof -
  have nz: "total_chars (cells_of (from_rows ([''a1'', ''b c''] # []))) \<noteq> 0"
    by (simp add: small_grid_cells total_chars_def)
  from get_table_features_succeeds [OF nz] obtain fs where
    fs: "get_table_features (from_rows ([''a1'', ''b c''] # [])) = Inr fs"
    by blast
  have v: "words_count_by_cell [''a1'', ''b c''] = [1, 2]" "total_chars [''a1'', ''b c''] = 5"
    "total_digits [''a1'', ''b c''] = 1"
    by (simp_all add: total_chars_def total_digits_def is_ascii_digit_def split_eval)
  have f: "od_get fs ''digits_perc'' = Some (VFloat (Fin (1 / 5)))"
    "od_get fs ''cell_words_mean'' = Some (VFloat (Fin (3 / 2)))"
    using get_table_features_fields(2) [OF fs]
      get_table_features_fields(3) [OF fs, of "''cell_words_mean''"]
    by (simp_all add: small_grid_cells v structural_names_def od_get_structural series_mean_def)
  from predict_is_table_rule [of fs 0 0 "from_rows ([''a1'', ''b c''] # [])" fs,
      THEN conjunct2, rule_format, OF fs]
  obtain d m where dm: "od_get fs ''digits_perc'' = Some (VFloat (Fin d))"
    "od_get fs ''cell_words_mean'' = Some (VFloat (Fin m))"
    "od_get fs ''is_table'' = Some (VBool (1 / 10 < d \<and> m < 5))"
    by blast
  from dm(1,2) f have "d = 1 / 5" "m = 3 / 2" by simp_all
  with dm(3) have r: "od_get fs ''is_table'' = Some (VBool True)"
    by simp
  from predict_is_table_rule
      [of "[(''cell_words_mean'', VFloat (Fin 2)), (''digits_perc'', VFloat (Fin (1 / 5)))]"
        "1 / 5" 2]
    predict_is_table_rule
      [of "[(''cell_words_mean'', VFloat (Fin 5)), (''digits_perc'', VFloat (Fin (1 / 5)))]"
        "1 / 5" 5]
    predict_is_table_rule
      [of "[(''cell_words_mean'', VFloat (Fin 2)), (''digits_perc'', VFloat (Fin (1 / 10)))]"
        "1 / 10" 2]
  have a: "predict_is_table
     [(''cell_words_mean'', VFloat (Fin 2)), (''digits_perc'', VFloat (Fin (1 / 5)))] = Inr True"
   and b: "predict_is_table
     [(''cell_words_mean'', VFloat (Fin 5)), (''digits_perc'', VFloat (Fin (1 / 5)))] = Inr False"
   and c: "predict_is_table
     [(''cell_words_mean'', VFloat (Fin 2)), (''digits_perc'', VFloat (Fin (1 / 10)))] = Inr False"
    by (simp_all add: od_get_def)
  from a b c fs f r show ?thesis by (intro conjI exI [of _ fs])
qed

text \<open>C2, as amended. For every grid whose total character count is zero,
  \<open>get_table_features\<close> raises \<^verbatim>\<open>ZeroDivisionError\<close> at the division for
  \<open>digits_perc\<close>: no record is built and the classifier is not called. In the batch
  loop the error is caught: the message of the fragment is logged, no record is
  appended to \<open>feature_list\<close>, and the loop goes on with the remaining fragments.\<close>

theorem empty_grid_raises:
  assumes "total_chars (cells_of df) = 0"
  shows "get_table_features df = Inl ZeroDivisionError
         \<and> (load t = Inr df \<longrightarrow>
              extract_all load (t # ts) st
                = extract_all load ts (st\<lparr>logged := logged st @ [failure_message t]\<rparr>))"
  using assms
  by (simp add: get_table_features_fails extract_one_def)

theorem empty_grid_raises_witness:
  "get_table_features (from_rows (['''', ''''] # ['''', ''''] # [])) = Inl ZeroDivisionError
   \<and> run_batch (\<lambda>t. Inr (from_rows (['''', ''''] # ['''', ''''] # []))) [(''a'', 1, 2)]
       = \<lparr>feature_list = [], logged = [''Failed to extract features for table a p.1 t.2'']\<rparr>"
proof -
  have z: "total_chars (cells_of (from_rows (['''', ''''] # ['''', ''''] # []))) = 0"
    by (simp add: empty_grid_cells total_chars_def)
  from empty_grid_raises [OF z,
      of "\<lambda>t. Inr (from_rows (['''', ''''] # ['''', ''''] # []))" "(''a'', 1, 2)" "[]"
        "\<lparr>feature_list = [], logged = []\<rparr>"]
  show ?thesis by (simp add: run_batch_def failure_message_def str_int_def str_nat.simps)
qed

text \<open>The claim as stated fails: on the grid of one empty cell the division-by-zero
  branch is reached and no classification is made.\<close>

theorem empty_grid_counterexample:
  "total_chars (cells_of (from_rows ([''''] # []))) = 0
   \<and> get_table_features (from_rows ([''''] # [])) = Inl ZeroDivisionError"
proof -
  have z: "total_chars (cells_of (from_rows ([''''] # []))) = 0"
    by (simp add: empty_grid_cells total_chars_def)
  from z get_table_features_fails [OF z] show ?thesis by (rule conjI)
qed

text \<open>C3, as amended. For the grid with rows \<open>1234 | text here\<close> and
  \<open>5678 | a b c d e f\<close>, the per-cell word counts are 1, 2, 1, 6 in row order, and the
  record has \<open>total_digits = 8\<close>, \<open>total_chars = 28\<close>, \<open>digits_perc = 8 / 28\<close>,
  \<open>cell_words_mean = 2.5\<close> and \<open>is_table = true\<close>.\<close>

theorem example_grid_is_table:
  "map (\<lambda>c. length (split c)) (concat ([''1234'', ''text here''] # [''5678'', ''a b c d e f''] # []))
     = [1, 2, 1, 6]
   \<and> (\<exists>fs. get_table_features
              (from_rows ([''1234'', ''text here''] # [''5678'', ''a b c d e f''] # [])) = Inr fs
         \<and> od_get fs ''total_digits'' = Some (VInt 8)
         \<and> od_get fs ''total_chars'' = Some (VInt 28)
         \<and> od_get fs ''digits_perc'' = Some (VFloat (Fin (8 / 28)))
         \<and> od_get fs ''cell_words_mean'' = Some (VFloat (Fin (5 / 2)))
         \<and> od_get fs ''is_table'' = Some (VBool True))"
proof -
  have nz: "total_chars (cells_of
      (from_rows ([''1234'', ''text here''] # [''5678'', ''a b c d e f''] # []))) \<noteq> 0"
    by (simp add: example_cells example_stats)
  from get_table_features_succeeds [OF nz] obtain fs where
    fs: "get_table_features
      (from_rows ([''1234'', ''text here''] # [''5678'', ''a b c d e f''] # [])) = Inr fs"
    by blast
  have "map (\<lambda>c. length (split c))
      (concat ([''1234'', ''text here''] # [''5678'', ''a b c d e f''] # [])) = [1, 2, 1, 6]"
    by (simp add: split_eval)
  with fs example_record [OF fs] show ?thesis by (intro conjI exI [of _ fs])
qed

text \<open>The claim as stated fails: 8 of the 28 characters are digits, which is more
  than 0.1, so the record of this grid never has \<open>is_table = false\<close>.\<close>

theorem example_grid_counterexample:
  "\<not> (\<exists>fs. get_table_features
              (from_rows ([''1234'', ''text here''] # [''5678'', ''a b c d e f''] # [])) = Inr fs
         \<and> od_get fs ''is_table'' = Some (VBool False))"
proof
  assume "\<exists>fs. get_table_features
              (from_rows ([''1234'', ''text here''] # [''5678'', ''a b c d e f''] # [])) = Inr fs
         \<and> od_get fs ''is_table'' = Some (VBool False)"
  then obtain fs where fs: "get_table_features
      (from_rows ([''1234'', ''text here''] # [''5678'', ''a b c d e f''] # [])) = Inr fs"
    and f: "od_get fs ''is_table'' = Some (VBool False)"
    by blast
  from example_record(5) [OF fs] f show False by simp
qed

text \<open>C7. Every record that \<open>get_table_features\<close> returns has the same fields in the
  same order: \<open>is_table\<close>, the ten structural features, one field per entry of the
  word catalog in catalog order, named by \<open>feature_name\<close> and holding the boolean
  that \<open>is_word_in\<close> returns for the entry, and the counts for the lengths 2, 3, 4, 5.\<close>

theorem feature_record_fields:
  assumes "get_table_features df = Inr fs"
  shows "map fst fs =
           [''is_table'', ''columns'', ''rows'', ''cell_words_min'', ''cell_words_mean'',
            ''cell_words_max'', ''empty_cells'', ''total_words'', ''total_chars'',
            ''total_digits'', ''digits_perc'']
           @ map (\<lambda>(w, cs, me). feature_name w cs me) words
           @ [''digit_of_len_2'', ''digit_of_len_3'', ''digit_of_len_4'', ''digit_of_len_5'']
         \<and> distinct (map fst fs)
         \<and> list_all
             (\<lambda>(w, cs, me). \<exists>b. is_word_in w (cells_of df) cs me = Inr b
                \<and> od_get fs (feature_name w cs me) = Some (VBool b)) words"
proof -
  have k: "map fst fs =
           [''is_table'', ''columns'', ''rows'', ''cell_words_min'', ''cell_words_mean'',
            ''cell_words_max'', ''empty_cells'', ''total_words'', ''total_chars'',
            ''total_digits'', ''digits_perc'']
           @ map (\<lambda>(w, cs, me). feature_name w cs me) words
           @ [''digit_of_len_2'', ''digit_of_len_3'', ''digit_of_len_4'', ''digit_of_len_5'']"
    using get_table_features_keys [OF assms]
    unfolding keys_def structural_names_def digit_names by simp
  have d: "distinct (map fst fs)"
    unfolding k word_feature_names by simp
  have w: "list_all
             (\<lambda>(w, cs, me). \<exists>b. is_word_in w (cells_of df) cs me = Inr b
                \<and> od_get fs (feature_name w cs me) = Some (VBool b)) words"
    unfolding list_all_iff using get_table_features_word_fields [OF assms] by auto
  from k d w show ?thesis by (intro conjI)
qed

theorem feature_record_fields_witness:
  "\<exists>fs. get_table_features (from_rows ([''a1'', ''b c''] # [])) = Inr fs
     \<and> map fst fs =
         [''is_table'', ''columns'', ''rows'', ''cell_words_min'', ''cell_words_mean'',
          ''cell_words_max'', ''empty_cells'', ''total_words'', ''total_chars'',
          ''total_digits'', ''digits_perc'',
          ''w_ci_e_age'', ''w_ci_e_date'', ''w_ci_ne_year'', ''w_cs_e_BP'', ''w_cs_e_BC'',
          ''w_ci_e_ad'', ''w_cs_e_Ka'', ''w_ci_e_cal'', ''w_ci_ne_painting'', ''w_ci_ne_drawing'',
          ''w_ci_ne_engraving'', ''w_ci_ne_pictograph'', ''w_ci_ne_petroglyph'', ''w_cs_e_AMS'',
          ''w_ci_ne_uranium_serie'', ''w_ci_e_radiocarbon'', ''w_ci_e_rc14'', ''w_ci_e_charcoal'',
          ''w_ci_ne_pigment'', ''w_ci_ne_calcite'', ''w_ci_e_beeswax'', ''w_ci_e_varnish'',
          ''w_ci_ne_bone'', ''w_ci_ne_cave'', ''w_ci_ne_site'',
          ''digit_of_len_2'', ''digit_of_len_3'', ''digit_of_len_4'', ''digit_of_len_5'']"
proof -
  have nz: "total_chars (cells_of (from_rows ([''a1'', ''b c''] # []))) \<noteq> 0"
    by (simp add: small_grid_cells total_chars_def)
  from get_table_features_succeeds [OF nz] obtain fs where
    fs: "get_table_features (from_rows ([''a1'', ''b c''] # [])) = Inr fs"
    by blast
  from feature_record_fields [OF fs] have "map fst fs =
           [''is_table'', ''columns'', ''rows'', ''cell_words_min'', ''cell_words_mean'',
            ''cell_words_max'', ''empty_cells'', ''total_words'', ''total_chars'',
            ''total_digits'', ''digits_perc'']
           @ map (\<lambda>(w, cs, me). feature_name w cs me) words
           @ [''digit_of_len_2'', ''digit_of_len_3'', ''digit_of_len_4'', ''digit_of_len_5'']"
    by (rule conjunct1)
  then have "map fst fs =
         [''is_table'', ''columns'', ''rows'', ''cell_words_min'', ''cell_words_mean'',
          ''cell_words_max'', ''empty_cells'', ''total_words'', ''total_chars'',
          ''total_digits'', ''digits_perc'',
          ''w_ci_e_age'', ''w_ci_e_date'', ''w_ci_ne_year'', ''w_cs_e_BP'', ''w_cs_e_BC'',
          ''w_ci_e_ad'', ''w_cs_e_Ka'', ''w_ci_e_cal'', ''w_ci_ne_painting'', ''w_ci_ne_drawing'',
          ''w_ci_ne_engraving'', ''w_ci_ne_pictograph'', ''w_ci_ne_petroglyph'', ''w_cs_e_AMS'',
          ''w_ci_ne_uranium_serie'', ''w_ci_e_radiocarbon'', ''w_ci_e_rc14'', ''w_ci_e_charcoal'',
          ''w_ci_ne_pigment'', ''w_ci_ne_calcite'', ''w_ci_e_beeswax'', ''w_ci_e_varnish'',
          ''w_ci_ne_bone'', ''w_ci_ne_cave'', ''w_ci_ne_site'',
          ''digit_of_len_2'', ''digit_of_len_3'', ''digit_of_len_4'', ''digit_of_len_5'']"
    unfolding word_feature_names by simp
  with fs show ?thesis by (intro exI [of _ fs] conjI)
qed

text \<open>C8. In the dictionary that \<open>get_table_features\<close> builds, \<open>total_words\<close>,
  \<open>total_chars\<close> and \<open>total_digits\<close> are non-negative integers with
  \<open>total_digits \<le> total_chars\<close>; whenever \<open>total_chars > 0\<close> a record is returned, it
  holds the same three values, and its \<open>digits_perc\<close> is \<open>total_digits / total_chars\<close>,
  a number between 0 and 1.\<close>

theorem totals_and_digits_perc:
  "\<exists>tw tc td.
     od_get (structural_features df) ''total_words'' = Some (VInt tw)
     \<and> od_get (structural_features df) ''total_chars'' = Some (VInt tc)
     \<and> od_get (structural_features df) ''total_digits'' = Some (VInt td)
     \<and> 0 \<le> tw \<and> 0 \<le> tc \<and> 0 \<le> td \<and> td \<le> tc
     \<and> (0 < tc \<longrightarrow>
          (\<exists>fs q. get_table_features df = Inr fs
             \<and> od_get fs ''total_words'' = Some (VInt tw)
             \<and> od_get fs ''total_chars'' = Some (VInt tc)
             \<and> od_get fs ''total_digits'' = Some (VInt td)
             \<and> od_get fs ''digits_perc'' = Some (VFloat (Fin q))
             \<and> q = of_int td / of_int tc \<and> 0 \<le> q \<and> q \<le> 1))"
proof -
  let ?tw = "int (total_words (cells_of df))"
  let ?tc = "int (total_chars (cells_of df))"
  let ?td = "int (total_digits (cells_of df))"
  have s: "od_get (structural_features df) ''total_words'' = Some (VInt ?tw)"
    "od_get (structural_features df) ''total_chars'' = Some (VInt ?tc)"
    "od_get (structural_features df) ''total_digits'' = Some (VInt ?td)"
    by (simp_all add: od_get_structural)
  have nonneg: "0 \<le> ?tw" "0 \<le> ?tc" "0 \<le> ?td" by simp_all
  have le: "?td \<le> ?tc" using total_digits_le_total_chars [of "cells_of df"] by simp
  have rec: "\<exists>fs q. get_table_features df = Inr fs
             \<and> od_get fs ''total_words'' = Some (VInt ?tw)
             \<and> od_get fs ''total_chars'' = Some (VInt ?tc)
             \<and> od_get fs ''total_digits'' = Some (VInt ?td)
             \<and> od_get fs ''digits_perc'' = Some (VFloat (Fin q))
             \<and> q = of_int ?td / of_int ?tc \<and> 0 \<le> q \<and> q \<le> 1"
    if pos: "0 < ?tc"
  proof -
    from pos have "total_chars (cells_of df) \<noteq> 0" by simp
    from get_table_features_succeeds [OF this] obtain fs where
      fs: "get_table_features df = Inr fs" by blast
    have f: "od_get fs ''total_words'' = Some (VInt ?tw)"
      "od_get fs ''total_chars'' = Some (VInt ?tc)"
      "od_get fs ''total_digits'' = Some (VInt ?td)"
      using get_table_features_fields(3) [OF fs, of "''total_words''"]
        get_table_features_fields(3) [OF fs, of "''total_chars''"]
        get_table_features_fields(3) [OF fs, of "''total_digits''"]
      by (simp_all add: structural_names_def od_get_structural)
    have q: "(0::rat) \<le> of_int ?td / of_int ?tc" "(of_int ?td / of_int ?tc :: rat) \<le> 1"
      using pos le by (simp_all add: divide_le_eq_1)
    from fs f get_table_features_fields(2) [OF fs] q
    show ?thesis
      by (intro exI [of _ fs] exI [of _ "of_int ?td / of_int ?tc"] conjI) simp_all
  qed
  from s nonneg le rec show ?thesis
    by (intro exI [of _ ?tw] exI [of _ ?tc] exI [of _ ?td] conjI impI)
qed

theorem totals_and_digits_perc_witness:
  "\<exists>fs. get_table_features (from_rows ([''a1'', ''b c''] # [])) = Inr fs
     \<and> od_get fs ''total_words'' = Some (VInt 3)
     \<and> od_get fs ''total_chars'' = Some (VInt 5)
     \<and> od_get fs ''total_digits'' = Some (VInt 1)
     \<and> od_get fs ''digits_perc'' = Some (VFloat (Fin (1 / 5)))"
proof -
  have v: "total_words [''a1'', ''b c''] = 3" "total_chars [''a1'', ''b c''] = 5"
    "total_digits [''a1'', ''b c''] = 1"
    by (simp_all add: total_chars_def total_digits_def total_words_def is_ascii_digit_def split_eval)
  from totals_and_digits_perc [of "from_rows ([''a1'', ''b c''] # [])"]
  show ?thesis
    by (auto simp: od_get_structural small_grid_cells v)
qed

text \<open>C10. For every grid with at least one cell, the word-count statistics that
  \<open>get_table_features\<close> computes are ordered, \<open>cell_words_min \<le> cell_words_mean \<le>
  cell_words_max\<close>, and \<open>total_words\<close> is the sum of the per-cell word counts; a
  returned record holds these same four values.\<close>

theorem cell_words_statistics:
  assumes "cells_of df \<noteq> []"
  shows "\<exists>lo mean hi tw.
     od_get (structural_features df) ''cell_words_min'' = Some (VInt lo)
     \<and> od_get (structural_features df) ''cell_words_mean'' = Some (VFloat (Fin mean))
     \<and> od_get (structural_features df) ''cell_words_max'' = Some (VInt hi)
     \<and> od_get (structural_features df) ''total_words'' = Some (VInt tw)
     \<and> of_int lo \<le> mean \<and> mean \<le> of_int hi
     \<and> tw = sum_list (words_count_by_cell (cells_of df))
     \<and> (\<forall>fs. get_table_features df = Inr fs \<longrightarrow>
           od_get fs ''cell_words_min'' = Some (VInt lo)
           \<and> od_get fs ''cell_words_mean'' = Some (VFloat (Fin mean))
           \<and> od_get fs ''cell_words_max'' = Some (VInt hi)
           \<and> od_get fs ''total_words'' = Some (VInt tw))"
proof -
  let ?wc = "words_count_by_cell (cells_of df)"
  from assms have ne: "?wc \<noteq> []" by (simp add: words_count_by_cell_def)
  let ?mean = "of_int (sum_list ?wc) / of_int (int (length ?wc)) :: rat"
  have s: "od_get (structural_features df) ''cell_words_min'' = Some (VInt (Min (set ?wc)))"
    "od_get (structural_features df) ''cell_words_mean'' = Some (VFloat (Fin ?mean))"
    "od_get (structural_features df) ''cell_words_max'' = Some (VInt (Max (set ?wc)))"
    "od_get (structural_features df) ''total_words'' = Some (VInt (int (total_words (cells_of df))))"
    using ne by (simp_all add: od_get_structural series_min_def series_mean_def series_max_def)
  have r: "od_get fs ''cell_words_min'' = Some (VInt (Min (set ?wc)))
           \<and> od_get fs ''cell_words_mean'' = Some (VFloat (Fin ?mean))
           \<and> od_get fs ''cell_words_max'' = Some (VInt (Max (set ?wc)))
           \<and> od_get fs ''total_words'' = Some (VInt (int (total_words (cells_of df))))"
    if fs: "get_table_features df = Inr fs" for fs
    using get_table_features_fields(3) [OF fs, of "''cell_words_min''"]
      get_table_features_fields(3) [OF fs, of "''cell_words_mean''"]
      get_table_features_fields(3) [OF fs, of "''cell_words_max''"]
      get_table_features_fields(3) [OF fs, of "''total_words''"] s
    by (simp add: structural_names_def)
  from s mean_between [OF ne] total_words_sum [of "cells_of df"] r
  show ?thesis
    by (intro exI [of _ "Min (set ?wc)"] exI [of _ ?mean] exI [of _ "Max (set ?wc)"]
        exI [of _ "int (total_words (cells_of df))"] conjI allI impI) simp_all
qed

theorem cell_words_statistics_witness:
  "\<exists>fs. get_table_features (from_rows ([''a1'', ''b c''] # [])) = Inr fs
     \<and> od_get fs ''cell_words_min'' = Some (VInt 1)
     \<and> od_get fs ''cell_words_mean'' = Some (VFloat (Fin (3 / 2)))
     \<and> od_get fs ''cell_words_max'' = Some (VInt 2)
     \<and> od_get fs ''total_words'' = Some (VInt 3)"
proof -
  have ne: "cells_of (from_rows ([''a1'', ''b c''] # [])) \<noteq> []"
    by (simp add: small_grid_cells)
  have nz: "total_chars (cells_of (from_rows ([''a1'', ''b c''] # []))) \<noteq> 0"
    by (simp add: small_grid_cells total_chars_def)
  from get_table_features_succeeds [OF nz] obtain fs where
    fs: "get_table_features (from_rows ([''a1'', ''b c''] # [])) = Inr fs"
    by blast
  have v: "words_count_by_cell [''a1'', ''b c''] = [1, 2]" "total_words [''a1'', ''b c''] = 3"
    by (simp_all add: total_words_def split_eval)
  from cell_words_statistics [OF ne] fs
  show ?thesis
    by (auto simp: od_get_structural small_grid_cells v series_min_def series_mean_def
        series_max_def)
qed

subsection \<open>The batch loop\<close>

lemma extract_all_feature_list:
  "feature_list (extract_all load ts st)
     = feature_list st
       @ concat (map (\<lambda>t. case extract_one load t of Inl e \<Rightarrow> [] | Inr fs \<Rightarrow> [fs]) ts)"
  by (induction ts arbitrary: st) (auto split: sum.splits)

lemma extract_all_logged:
  "logged (extract_all load ts st)
     = logged st @ map failure_message (filter (\<lambda>t. isl (extract_one load t)) ts)"
  by (induction ts arbitrary: st) (auto split: sum.splits)

text \<open>The lists that the loop leaves: the records of the fragments that load and
  whose features are computed, in input order, and one message for every other
  fragment.\<close>

lemma run_batch_lists:
  "feature_list (run_batch load tables)
     = concat (map (\<lambda>t. case load t of
                          Inl e \<Rightarrow> []
                        | Inr df \<Rightarrow> (case get_table_features df of Inl e \<Rightarrow> [] | Inr fs \<Rightarrow> [fs]))
                 tables)"
  "logged (run_batch load tables)
     = map failure_message
         (filter (\<lambda>t. case load t of Inl e \<Rightarrow> True | Inr df \<Rightarrow> isl (get_table_features df))
            tables)"
proof -
  have a: "(case extract_one load t of Inl e \<Rightarrow> [] | Inr fs \<Rightarrow> [fs])
      = (case load t of
           Inl e \<Rightarrow> []
         | Inr df \<Rightarrow> (case get_table_features df of Inl e \<Rightarrow> [] | Inr fs \<Rightarrow> [fs]))" for t
    by (simp add: extract_one_def split: sum.splits)
  have b: "isl (extract_one load t)
      = (case load t of Inl e \<Rightarrow> True | Inr df \<Rightarrow> isl (get_table_features df))" for t
    by (simp add: extract_one_def split: sum.splits)
  show "feature_list (run_batch load tables)
     = concat (map (\<lambda>t. case load t of
                          Inl e \<Rightarrow> []
                        | Inr df \<Rightarrow> (case get_table_features df of Inl e \<Rightarrow> [] | Inr fs \<Rightarrow> [fs]))
                 tables)"
    by (simp add: run_batch_def extract_all_feature_list a)
  show "logged (run_batch load tables)
     = map failure_message
         (filter (\<lambda>t. case load t of Inl e \<Rightarrow> True | Inr df \<Rightarrow> isl (get_table_features df))
            tables)"
    by (simp add: run_batch_def extract_all_logged b)
qed

lemma single_cell_grids:
  "cells_of (from_rows ([''a1''] # [])) = [''a1'']"
  "cells_of (from_rows ([''22''] # [])) = [''22'']"
  by (simp_all add: cells_of_def from_rows_def upt_rec)

text \<open>C9. The claim fails on the program. For the fragments A, B, C, where the files
  of A and C load and the file of B does not, the loop does what the claim says: it
  logs B and goes on, and \<open>feature_list\<close> holds the records of A and of C. But the
  table that is written out joins the fragment ids and these records by row number:
  B stays in the output and carries the record of C, and C has no record.\<close>

theorem batch_output_misaligned:
  "\<exists>fA fC.
     get_table_features (from_rows ([''a1''] # [])) = Inr fA
     \<and> get_table_features (from_rows ([''22''] # [])) = Inr fC
     \<and> fA \<noteq> fC
     \<and> run_batch
         (\<lambda>t. if fst t = ''B'' then Inl LoadError
              else if fst t = ''A'' then Inr (from_rows ([''a1''] # []))
              else Inr (from_rows ([''22''] # [])))
         [(''A'', 1, 1), (''B'', 1, 2), (''C'', 1, 3)]
       = \<lparr>feature_list = [fA, fC],
          logged = [''Failed to extract features for table B p.1 t.2'']\<rparr>
     \<and> output_table
         (\<lambda>t. if fst t = ''B'' then Inl LoadError
              else if fst t = ''A'' then Inr (from_rows ([''a1''] # []))
              else Inr (from_rows ([''22''] # [])))
         [(''A'', 1, 1), (''B'', 1, 2), (''C'', 1, 3)]
       = [(Some (''A'', 1, 1), Some fA), (Some (''B'', 1, 2), Some fC),
          (Some (''C'', 1, 3), None)]"
proof -
  let ?load = "\<lambda>t::table_id. if fst t = ''B'' then Inl LoadError
              else if fst t = ''A'' then Inr (from_rows ([''a1''] # []))
              else Inr (from_rows ([''22''] # []))"
  have "total_chars (cells_of (from_rows ([''a1''] # []))) \<noteq> 0"
    by (simp add: single_cell_grids total_chars_def)
  from get_table_features_succeeds [OF this] obtain fA where
    fA: "get_table_features (from_rows ([''a1''] # [])) = Inr fA" by blast
  have "total_chars (cells_of (from_rows ([''22''] # []))) \<noteq> 0"
    by (simp add: single_cell_grids total_chars_def)
  from get_table_features_succeeds [OF this] obtain fC where
    fC: "get_table_features (from_rows ([''22''] # [])) = Inr fC" by blast
  have "od_get fA ''total_digits'' = Some (VInt 1)"
    using get_table_features_fields(3) [OF fA, of "''total_digits''"]
    by (simp add: structural_names_def od_get_structural single_cell_grids total_digits_def
        is_ascii_digit_def)
  moreover have "od_get fC ''total_digits'' = Some (VInt 2)"
    using get_table_features_fields(3) [OF fC, of "''total_digits''"]
    by (simp add: structural_names_def od_get_structural single_cell_grids total_digits_def
        is_ascii_digit_def)
  ultimately have ne: "fA \<noteq> fC" by auto
  have run: "run_batch ?load [(''A'', 1, 1), (''B'', 1, 2), (''C'', 1, 3)]
       = \<lparr>feature_list = [fA, fC],
          logged = [''Failed to extract features for table B p.1 t.2'']\<rparr>"
    by (simp add: run_batch_def extract_one_def fA fC failure_message_def str_int_def
        str_nat.simps)
  have out: "output_table ?load [(''A'', 1, 1), (''B'', 1, 2), (''C'', 1, 3)]
       = [(Some (''A'', 1, 1), Some fA), (Some (''B'', 1, 2), Some fC),
          (Some (''C'', 1, 3), None)]"
    unfolding output_table_def run by (simp add: concat_axis1_def upt_rec)
  from fA fC ne run out show ?thesis
    by (intro exI [of _ fA] exI [of _ fC] conjI)
qed

subsection \<open>The digit histogram\<close>

lemma counter_get_add:
  "counter_get (counter_add m x) k 0 = counter_get m k 0 + (if x = k then 1 else 0)"
  by (simp add: counter_get_def counter_add_def split: option.splits)

lemma counter_get_fold:
  "counter_get (fold (\<lambda>x m. counter_add m x) xs m) k 0 = counter_get m k 0 + count_list xs k"
  by (induction xs arbitrary: m) (simp_all add: counter_get_add)

lemma counter_get_Counter: "counter_get (Counter xs) k 0 = count_list xs k"
  by (simp add: Counter_def counter_get_fold) (simp add: counter_get_def)

lemma count_list_app: "count_list (xs @ ys) k = count_list xs k + count_list ys k"
  by (induction xs) simp_all

lemma count_list_concat:
  "count_list (map length (concat (map f cells))) n
     = sum_list (map (\<lambda>c. count_list (map length (f c)) n) cells)"
  by (induction cells) (simp_all add: count_list_app)

lemma digit_run_at_Suc:
  "digit_run_at b (c # cs) (Suc i) n = digit_run_at (is_ascii_digit c) cs i n"
  by (cases i) (simp_all add: digit_run_at_def)

lemma takeWhile_length_iff:
  "(n \<le> length s \<and> list_all P (take n s) \<and> (if n < length s then \<not> P (s ! n) else True))
     = (length (takeWhile P s) = n)"
proof (induction s arbitrary: n)
  case Nil
  then show ?case by auto
next
  case (Cons c cs)
  show ?case
  proof (cases n)
    case 0
    then show ?thesis by simp
  next
    case (Suc m)
    with Cons.IH [of m] show ?thesis by auto
  qed
qed

lemma digit_run_at_0:
  "digit_run_at b s 0 n = (\<not> b \<and> 0 < n \<and> length (takeWhile is_ascii_digit s) = n)"
  using takeWhile_length_iff [of n s is_ascii_digit]
  by (auto simp: digit_run_at_def)

lemma count_upt_Suc:
  "length (filter P [0..<Suc m])
     = (if P 0 then 1 else 0) + length (filter (\<lambda>i. P (Suc i)) [0..<m])"
proof -
  have "[0..<Suc m] = 0 # map Suc [0..<m]"
    by (simp only: map_Suc_upt upt_conv_Cons [of 0 "Suc m"] zero_less_Suc)
  then show ?thesis by (simp add: filter_map comp_def)
qed

lemma count_runs_from:
  "count_list (map length (digit_runs_from cur s)) n =
     (if cur = [] then length (filter (\<lambda>i. digit_run_at False s i n) [0..<length s])
      else (if length cur + length (takeWhile is_ascii_digit s) = n then 1 else 0)
           + length (filter (\<lambda>i. digit_run_at True s i n) [0..<length s]))"
proof (induction s arbitrary: cur)
  case Nil
  then show ?case by simp
next
  case (Cons c cs)
  show ?case
  proof (cases "is_ascii_digit c")
    case True
    with Cons.IH [of "c # cur"] show ?thesis
      by (auto simp: count_upt_Suc digit_run_at_Suc digit_run_at_0 simp del: upt_Suc)
  next
    case False
    with Cons.IH [of "[]"] show ?thesis
      by (auto simp: count_upt_Suc digit_run_at_Suc digit_run_at_0 simp del: upt_Suc)
  qed
qed

lemma count_runs_findall:
  "count_list (map length (findall_digits s)) n = count_digit_runs s n"
  by (simp add: findall_digits_def count_digit_runs_def count_runs_from)

lemma histogram_counts_runs:
  "counter_get (digit_word_len_count cells) n 0 = count_digit_runs_in cells n"
  by (simp add: digit_word_len_count_def counter_get_Counter count_list_concat
      count_runs_findall count_digit_runs_in_def)

lemma histogram_example:
  "map (\<lambda>n. counter_get (digit_word_len_count [''12'', ''12345'', ''7'']) n 0) [2, 3, 4, 5]
     = [1, 0, 0, 1]"
  by (simp add: digit_word_len_count_def counter_get_Counter findall_digits_def
      is_ascii_digit_def)

lemma column_grid_cells:
  "cells_of (from_rows ([''12''] # [''12345''] # [''7''] # [])) = [''12'', ''12345'', ''7'']"
  by (simp add: cells_of_def from_rows_def upt_rec)

text \<open>C6. The histogram counts the maximal runs of digits in all cells: the Counter
  holds, for every length, the number of such runs, and a returned record gives this
  number for each of the lengths 2, 3, 4 and 5 (0 when there is none). On the cells
  \<open>12\<close>, \<open>12345\<close>, \<open>7\<close> the four counts are 1, 0, 0, 1.\<close>

theorem digit_histogram:
  "counter_get (digit_word_len_count cells) n 0 = count_digit_runs_in cells n
   \<and> (get_table_features df = Inr fs \<longrightarrow>
        od_get fs ''digit_of_len_2'' = Some (VInt (int (count_digit_runs_in (cells_of df) 2)))
        \<and> od_get fs ''digit_of_len_3'' = Some (VInt (int (count_digit_runs_in (cells_of df) 3)))
        \<and> od_get fs ''digit_of_len_4'' = Some (VInt (int (count_digit_runs_in (cells_of df) 4)))
        \<and> od_get fs ''digit_of_len_5'' = Some (VInt (int (count_digit_runs_in (cells_of df) 5))))
   \<and> map (\<lambda>n. counter_get (digit_word_len_count [''12'', ''12345'', ''7'']) n 0) [2, 3, 4, 5]
       = [1, 0, 0, 1]"
proof (intro conjI impI)
  show "counter_get (digit_word_len_count cells) n 0 = count_digit_runs_in cells n"
    by (rule histogram_counts_runs)
  show "map (\<lambda>n. counter_get (digit_word_len_count [''12'', ''12345'', ''7'']) n 0) [2, 3, 4, 5]
       = [1, 0, 0, 1]"
    by (rule histogram_example)
  assume fs: "get_table_features df = Inr fs"
  from get_table_features_digit_fields [OF fs]
  show "od_get fs ''digit_of_len_2'' = Some (VInt (int (count_digit_runs_in (cells_of df) 2)))"
    and "od_get fs ''digit_of_len_3'' = Some (VInt (int (count_digit_runs_in (cells_of df) 3)))"
    and "od_get fs ''digit_of_len_4'' = Some (VInt (int (count_digit_runs_in (cells_of df) 4)))"
    and "od_get fs ''digit_of_len_5'' = Some (VInt (int (count_digit_runs_in (cells_of df) 5)))"
    by (simp_all add: histogram_counts_runs)
qed

theorem digit_histogram_witness:
  "\<exists>fs. get_table_features (from_rows ([''12''] # [''12345''] # [''7''] # [])) = Inr fs
     \<and> od_get fs ''digit_of_len_2'' = Some (VInt 1)
     \<and> od_get fs ''digit_of_len_3'' = Some (VInt 0)
     \<and> od_get fs ''digit_of_len_4'' = Some (VInt 0)
     \<and> od_get fs ''digit_of_len_5'' = Some (VInt 1)"
proof -
  have nz: "total_chars (cells_of (from_rows ([''12''] # [''12345''] # [''7''] # []))) \<noteq> 0"
    by (simp add: column_grid_cells total_chars_def)
  from get_table_features_succeeds [OF nz] obtain fs where
    fs: "get_table_features (from_rows ([''12''] # [''12345''] # [''7''] # [])) = Inr fs"
    by blast
  have c: "count_digit_runs_in [''12'', ''12345'', ''7''] 2 = 1"
    "count_digit_runs_in [''12'', ''12345'', ''7''] 3 = 0"
    "count_digit_runs_in [''12'', ''12345'', ''7''] 4 = 0"
    "count_digit_runs_in [''12'', ''12345'', ''7''] 5 = 1"
    using histogram_example by (simp_all add: histogram_counts_runs)
  from digit_histogram [of "[]" 0 "from_rows ([''12''] # [''12345''] # [''7''] # [])" fs] fs
  have "od_get fs ''digit_of_len_2'' = Some (VInt 1)
     \<and> od_get fs ''digit_of_len_3'' = Some (VInt 0)
     \<and> od_get fs ''digit_of_len_4'' = Some (VInt 0)
     \<and> od_get fs ''digit_of_len_5'' = Some (VInt 1)"
    by (simp add: column_grid_cells c)
  with fs show ?thesis by (intro exI [of _ fs] conjI) simp_all
qed

end
